theory Spec2Isabelle
  imports Complex_Main "HOL-Library.Word"
begin

section \<open>Scalars, vectors and the glm operations the model uses\<close>

text \<open>
  A value of the type variable \<open>'a\<close> is one C++ \<open>float\<close> datum. HOL equality on \<open>'a\<close> is
  identity of the datum (its bit pattern). The arithmetic \<open>+\<close>, \<open>-\<close>, \<open>*\<close>, \<open>/\<close>, \<open><\<close> is taken
  from the syntactic type classes only, which carry no laws: nothing below assumes that
  float addition is associative, that \<open>x - x = 0\<close>, or that \<open><\<close> is an order. Every theorem
  stated for \<open>'a\<close> therefore holds for IEEE floats (NaN and infinities included) as well as
  for \<open>real\<close>, at which concrete meshes are evaluated.

  The constants \<open>0\<close> and \<open>1\<close> of the classes stand for the float zero (written \<open>0\<close>,
  \<open>0.0f\<close> or \<open>{}\<close> in the source) and the float one (\<open>1\<close>, \<open>1.0f\<close>). What \<open>float\<close> needs
  beyond the class operations comes in a record of primitives.
\<close>

record 'a float_env =
  float_lit :: "real \<Rightarrow> 'a"          \<comment> \<open>the float a decimal literal such as \<open>0.1f\<close> denotes\<close>
  float_sqrt :: "'a \<Rightarrow> 'a"            \<comment> \<open>\<open>glm::sqrt\<close>\<close>
  float_inversesqrt :: "'a \<Rightarrow> 'a"     \<comment> \<open>\<open>glm::inversesqrt\<close>\<close>
  float_lowest :: 'a                  \<comment> \<open>\<open>std::numeric_limits<float>::lowest()\<close>\<close>
  float_max :: 'a                     \<comment> \<open>\<open>std::numeric_limits<float>::max()\<close>\<close>

datatype 'a vec2 = Vec2 (vec2_s: 'a) (vec2_t: 'a)
datatype 'a vec3 = Vec3 (vec3_x: 'a) (vec3_y: 'a) (vec3_z: 'a)
datatype 'a vec4 = Vec4 (vec4_x: 'a) (vec4_y: 'a) (vec4_z: 'a) (vec4_w: 'a)

definition vec2_sub :: "'a::minus vec2 \<Rightarrow> 'a vec2 \<Rightarrow> 'a vec2" where
  "vec2_sub a b = Vec2 (vec2_s a - vec2_s b) (vec2_t a - vec2_t b)"

definition vec3_zero :: "'a::zero vec3" where
  "vec3_zero = Vec3 0 0 0"

definition vec3_add :: "'a::plus vec3 \<Rightarrow> 'a vec3 \<Rightarrow> 'a vec3" where
  "vec3_add a b = Vec3 (vec3_x a + vec3_x b) (vec3_y a + vec3_y b) (vec3_z a + vec3_z b)"

definition vec3_sub :: "'a::minus vec3 \<Rightarrow> 'a vec3 \<Rightarrow> 'a vec3" where
  "vec3_sub a b = Vec3 (vec3_x a - vec3_x b) (vec3_y a - vec3_y b) (vec3_z a - vec3_z b)"

definition vec3_scale :: "'a::times vec3 \<Rightarrow> 'a \<Rightarrow> 'a vec3" where
  \<comment> \<open>\<open>v * s\<close> for a vector and a scalar\<close>
  "vec3_scale v s = Vec3 (vec3_x v * s) (vec3_y v * s) (vec3_z v * s)"

definition vec3_div :: "'a::inverse vec3 \<Rightarrow> 'a \<Rightarrow> 'a vec3" where
  \<comment> \<open>\<open>v / s\<close> for a vector and a scalar\<close>
  "vec3_div v s = Vec3 (vec3_x v / s) (vec3_y v / s) (vec3_z v / s)"

definition vec4_add :: "'a::plus vec4 \<Rightarrow> 'a vec4 \<Rightarrow> 'a vec4" where
  "vec4_add a b =
     Vec4 (vec4_x a + vec4_x b) (vec4_y a + vec4_y b) (vec4_z a + vec4_z b) (vec4_w a + vec4_w b)"

definition vec4_xyz :: "'a vec4 \<Rightarrow> 'a vec3" where
  \<comment> \<open>\<open>glm::vec3(v)\<close> for a \<open>vec4\<close>: drops \<open>w\<close>\<close>
  "vec4_xyz v = Vec3 (vec4_x v) (vec4_y v) (vec4_z v)"

definition vec4_of :: "'a vec3 \<Rightarrow> 'a \<Rightarrow> 'a vec4" where
  \<comment> \<open>\<open>glm::vec4(v, w)\<close>\<close>
  "vec4_of v w = Vec4 (vec3_x v) (vec3_y v) (vec3_z v) w"

definition cross :: "'a::{minus,times} vec3 \<Rightarrow> 'a vec3 \<Rightarrow> 'a vec3" where
  \<comment> \<open>\<open>glm::cross\<close>\<close>
  "cross a b =
     Vec3 (vec3_y a * vec3_z b - vec3_y b * vec3_z a)
          (vec3_z a * vec3_x b - vec3_z b * vec3_x a)
          (vec3_x a * vec3_y b - vec3_x b * vec3_y a)"

definition dot :: "'a::{plus,times} vec3 \<Rightarrow> 'a vec3 \<Rightarrow> 'a" where
  \<comment> \<open>\<open>glm::dot\<close> on \<open>vec3\<close>\<close>
  "dot a b = vec3_x a * vec3_x b + vec3_y a * vec3_y b + vec3_z a * vec3_z b"

definition normalize :: "'a::{plus,times} float_env \<Rightarrow> 'a vec3 \<Rightarrow> 'a vec3" where
  \<comment> \<open>\<open>glm::normalize\<close>: \<open>v * inversesqrt(dot(v, v))\<close>\<close>
  "normalize F v = vec3_scale v (float_inversesqrt F (dot v v))"

definition length_vec3 :: "'a::{plus,times} float_env \<Rightarrow> 'a vec3 \<Rightarrow> 'a" where
  \<comment> \<open>\<open>glm::length\<close>: \<open>sqrt(dot(v, v))\<close>\<close>
  "length_vec3 F v = float_sqrt F (dot v v)"

definition std_max :: "'a::ord \<Rightarrow> 'a \<Rightarrow> 'a" where
  \<comment> \<open>\<open>std::max(a, b)\<close> is \<open>(a < b) ? b : a\<close>\<close>
  "std_max a b = (if a < b then b else a)"

definition std_min :: "'a::ord \<Rightarrow> 'a \<Rightarrow> 'a" where
  \<comment> \<open>\<open>std::min(a, b)\<close> is \<open>(b < a) ? b : a\<close>\<close>
  "std_min a b = (if b < a then b else a)"

section \<open>Data model\<close>

type_synonym GLuint = "32 word"

text \<open>
  Modelled from the spec: \<open>struct Vertex\<close> and its \<open>operator==\<close> (declared in \<open>model.hpp\<close>,
  which is not among the sources). A vertex has a position, a normal, a texture
  coordinate and a tangent; equality and hash are over position, normal and texture
  coordinate only, and two vertices are duplicates iff these three are bit-identical.
  \<open>vertex_key\<close> is the part of a vertex that \<open>operator==\<close> compares.
\<close>

record 'a vertex =
  position :: "'a vec3"
  normal :: "'a vec3"
  texCoord :: "'a vec2"
  tangent :: "'a vec4"

type_synonym 'a vertex_key = "'a vec3 \<times> 'a vec3 \<times> 'a vec2"

definition vertex_key :: "'a vertex \<Rightarrow> 'a vertex_key" where
  \<comment> \<open>Modelled from the spec: what \<open>Vertex::operator==\<close> of \<open>model.hpp\<close> compares. The
      \<open>std::hash<Vertex>\<close> of \<open>model.cpp\<close> reads the same three members.\<close>
  "vertex_key v = (position v, normal v, texCoord v)"

text \<open>The members of \<open>class Model\<close> that \<open>model.cpp\<close> reads or writes.\<close>

record 'a model =
  m_vertices :: "'a vertex list"
  m_indices :: "GLuint list"
  m_hasNormals :: bool
  m_hasTexCoords :: bool
  m_Ka :: "'a vec4"
  m_Kd :: "'a vec4"
  m_Ks :: "'a vec4"
  m_shininess :: 'a
  m_diffuseTexture :: GLuint
  m_normalTexture :: GLuint
  m_VAO :: GLuint
  m_VBO :: GLuint
  m_EBO :: GLuint

text \<open>
  What tinyobj hands over after parsing: \<open>index_t\<close>, \<open>attrib_t\<close>, \<open>shape_t\<close> (its
  \<open>mesh.indices\<close>) and \<open>material_t\<close> (the members the loader reads). The three \<open>int\<close>
  members of \<open>index_t\<close> are modelled as unbounded integers: \<open>3 * index\<close> is computed in
  \<open>int\<close> by the source, and an index whose triple leaves the \<open>int\<close> range has no defined
  behaviour in C++.
\<close>

record index_t =
  vertex_index :: int
  normal_index :: int
  texcoord_index :: int

record 'a attrib_t =
  vertices :: "'a list"
  normals :: "'a list"
  texcoords :: "'a list"

record shape_t =
  mesh_indices :: "index_t list"

record 'a material_t =
  ambient :: "'a vec3"
  diffuse :: "'a vec3"
  specular :: "'a vec3"
  shininess :: 'a
  diffuse_texname :: string
  normal_texname :: string
  bump_texname :: string

record 'a ObjReader =
  parse_ok :: bool                    \<comment> \<open>what \<open>ParseFromFile\<close> returned\<close>
  reader_Error :: string
  reader_Warning :: string
  reader_attrib :: "'a attrib_t"
  reader_shapes :: "shape_t list"
  reader_materials :: "'a material_t list"

text \<open>
  The two exceptions that can leave the loader: \<open>abcg::Exception::Runtime\<close> with its
  message, and the \<open>std::out_of_range\<close> of \<open>std::vector::at\<close>.
\<close>

datatype error = Runtime string | OutOfRange

text \<open>
  The collaborators outside the repository: the OBJ parser, the file system, the texture
  loader (which may throw) and the buffer names the GL driver hands out.
\<close>

record 'a world =
  ParseFromFile :: "string \<Rightarrow> string \<Rightarrow> 'a ObjReader"  \<comment> \<open>file path, material search path\<close>
  parent_path :: "string \<Rightarrow> string"
  fs_exists :: "string \<Rightarrow> bool"                  \<comment> \<open>\<open>std::filesystem::exists\<close>, where it returns\<close>
  loadTexture :: "string \<Rightarrow> error + GLuint"      \<comment> \<open>\<open>abcg::opengl::loadTexture\<close>\<close>
  glGenBuffer_VBO :: GLuint
  glGenBuffer_EBO :: GLuint

section \<open>Exceptions as values\<close>

definition and_then :: "error + 'b \<Rightarrow> ('b \<Rightarrow> error + 'c) \<Rightarrow> error + 'c" where
  "and_then r f = (case r of Inl e \<Rightarrow> Inl e | Inr v \<Rightarrow> f v)"

definition at_nat :: "'b list \<Rightarrow> nat \<Rightarrow> error + 'b" where
  \<comment> \<open>\<open>std::vector::at\<close>\<close>
  "at_nat xs i = (if i < length xs then Inr (xs ! i) else Inl OutOfRange)"

definition at_int :: "'b list \<Rightarrow> int \<Rightarrow> error + 'b" where
  \<comment> \<open>\<open>std::vector::at\<close> on an \<open>int\<close> converted to \<open>size_t\<close>: a negative value becomes
      larger than any vector's size\<close>
  "at_int xs i = (if 0 \<le> i then at_nat xs (nat i) else Inl OutOfRange)"


definition subscript :: "('k \<rightharpoonup> GLuint) \<Rightarrow> 'k \<Rightarrow> ('k \<rightharpoonup> GLuint) \<times> GLuint" where
  \<comment> \<open>\<open>std::unordered_map::operator[]\<close>: a missing key is inserted with the value-initialised
      \<open>GLuint\<close>\<close>
  "subscript h k = (case h k of Some i \<Rightarrow> (h, i) | None \<Rightarrow> (h(k \<mapsto> 0), 0))"

text \<open>
  \<open>for (const auto offset : iter::range<int>(0, n, 3))\<close>. The loop counter is an \<open>int\<close>,
  and \<open>n\<close>, a \<open>size_t\<close>, is converted to \<open>int\<close> when the range is made: \<open>range_stop\<close> is that
  conversion.
\<close>

definition range_stop :: "nat \<Rightarrow> int" where
  "range_stop n = sint (word_of_nat n :: 32 word)"

function for_range3 :: "int \<Rightarrow> int \<Rightarrow> (int \<Rightarrow> 's \<Rightarrow> error + 's) \<Rightarrow> 's \<Rightarrow> error + 's" where
  "for_range3 offset stop body s =
     (if offset < stop
      then (case body offset s of Inl e \<Rightarrow> Inl e | Inr s' \<Rightarrow> for_range3 (offset + 3) stop body s')
      else Inr s)"
  by pat_completeness auto
termination
  by (relation "measure (\<lambda>(offset, stop, body, s). nat (stop - offset))") auto

declare for_range3.simps [simp del]

section \<open>\<open>Model::computeNormals\<close>\<close>

definition add_normal :: "nat \<Rightarrow> 'a::plus vec3 \<Rightarrow> 'a vertex list \<Rightarrow> 'a vertex list" where
  \<comment> \<open>\<open>v.normal += n\<close> for the vertex \<open>v\<close> at index \<open>i\<close>\<close>
  "add_normal i n vs = vs[i := (vs ! i)\<lparr>normal := vec3_add (normal (vs ! i)) n\<rparr>]"

definition computeNormals_face ::
  "GLuint list \<Rightarrow> int \<Rightarrow> 'a::{plus,minus,times} vertex list \<Rightarrow> error + 'a vertex list" where
  "computeNormals_face indices offset vs =
     and_then (at_int indices (offset + 0)) (\<lambda>ia.
     and_then (at_nat vs (unat ia)) (\<lambda>a.
     and_then (at_int indices (offset + 1)) (\<lambda>ib.
     and_then (at_nat vs (unat ib)) (\<lambda>b.
     and_then (at_int indices (offset + 2)) (\<lambda>ic.
     and_then (at_nat vs (unat ic)) (\<lambda>c.
       let edge1 = vec3_sub (position b) (position a);
           edge2 = vec3_sub (position c) (position b);
           n = cross edge1 edge2
       in Inr (add_normal (unat ic) n (add_normal (unat ib) n (add_normal (unat ia) n vs)))))))))"

definition computeNormals ::
  "'a::{zero,plus,minus,times} float_env \<Rightarrow> 'a model \<Rightarrow> error + 'a model" where
  "computeNormals F m =
     (let vs0 = map (\<lambda>v. v\<lparr>normal := vec3_zero\<rparr>) (m_vertices m)
      in and_then
           (for_range3 0 (range_stop (length (m_indices m)))
              (computeNormals_face (m_indices m)) vs0)
           (\<lambda>vs1. Inr (m\<lparr>m_vertices := map (\<lambda>v. v\<lparr>normal := normalize F (normal v)\<rparr>) vs1,
                          m_hasNormals := True\<rparr>)))"

section \<open>\<open>Model::computeTangents\<close>\<close>

definition add_tangent :: "nat \<Rightarrow> 'a::plus vec4 \<Rightarrow> 'a vertex list \<Rightarrow> 'a vertex list" where
  "add_tangent i t vs = vs[i := (vs ! i)\<lparr>tangent := vec4_add (tangent (vs ! i)) t\<rparr>]"

definition add_bitangent :: "nat \<Rightarrow> 'a::plus vec3 \<Rightarrow> 'a vec3 list \<Rightarrow> 'a vec3 list" where
  \<comment> \<open>\<open>bitangents.at(i) += b\<close>, for \<open>i\<close> in range\<close>
  "add_bitangent i b bs = bs[i := vec3_add (bs ! i) b]"

definition face_tangent ::
  "'a::{zero,one,plus,minus,uminus,times,inverse} vertex \<Rightarrow> 'a vertex \<Rightarrow> 'a vertex
     \<Rightarrow> 'a vec4 \<times> 'a vec3" where
  \<comment> \<open>the tangent and the bitangent of the face with corners \<open>v1\<close>, \<open>v2\<close>, \<open>v3\<close>\<close>
  "face_tangent v1 v2 v3 =
     (let e1 = vec3_sub (position v2) (position v1);
          e2 = vec3_sub (position v3) (position v1);
          delta1 = vec2_sub (texCoord v2) (texCoord v1);
          delta2 = vec2_sub (texCoord v3) (texCoord v1);
          k = 1 / (vec2_s delta1 * vec2_t delta2 - vec2_s delta2 * vec2_t delta1);
          M00 = vec2_t delta2 * k;
          M01 = (- vec2_t delta1) * k;
          M10 = (- vec2_s delta2) * k;
          M11 = vec2_s delta1 * k
      in (Vec4 (M00 * vec3_x e1 + M01 * vec3_x e2)
               (M00 * vec3_y e1 + M01 * vec3_y e2)
               (M00 * vec3_z e1 + M01 * vec3_z e2) 0,
          Vec3 (M10 * vec3_x e1 + M11 * vec3_x e2)
               (M10 * vec3_y e1 + M11 * vec3_y e2)
               (M10 * vec3_z e1 + M11 * vec3_z e2)))"


definition computeTangents_face ::
  "GLuint list \<Rightarrow> int \<Rightarrow> 'a::{zero,one,plus,minus,uminus,times,inverse} vertex list \<times> 'a vec3 list
     \<Rightarrow> error + 'a vertex list \<times> 'a vec3 list" where
  "computeTangents_face indices offset = (\<lambda>(vs, bitangents).
     and_then (at_int indices (offset + 0)) (\<lambda>i1.
     and_then (at_int indices (offset + 1)) (\<lambda>i2.
     and_then (at_int indices (offset + 2)) (\<lambda>i3.
     and_then (at_nat vs (unat i1)) (\<lambda>v1.
     and_then (at_nat vs (unat i2)) (\<lambda>v2.
     and_then (at_nat vs (unat i3)) (\<lambda>v3.
       let (t, b) = face_tangent v1 v2 v3
       in Inr (add_tangent (unat i3) t (add_tangent (unat i2) t (add_tangent (unat i1) t vs)),
               add_bitangent (unat i3) b
                 (add_bitangent (unat i2) b (add_bitangent (unat i1) b bitangents))))))))))"

definition orthogonalize ::
  "'a::{zero,one,plus,minus,uminus,times,ord} float_env \<Rightarrow> 'a vertex \<Rightarrow> 'a vec3 \<Rightarrow> 'a vertex" where
  \<comment> \<open>the body of the last loop, for one vertex and its accumulated bitangent\<close>
  "orthogonalize F v bitangent =
     (let n = normal v;
          t = vec4_xyz (tangent v);
          tangent' = vec3_sub t (vec3_scale n (dot n t));
          b = cross n t;
          handedness = dot b bitangent
      in v\<lparr>tangent := vec4_of (normalize F tangent') (if handedness < 0 then - 1 else 1)\<rparr>)"

definition computeTangents_faces ::
  "'a::{zero,one,plus,minus,uminus,times,inverse} model \<Rightarrow> error + 'a vertex list \<times> 'a vec3 list" where
  \<comment> \<open>the first part, \<open>// Compute face tangents and bitangents\<close>: it leaves the vertices
      with the accumulated tangents, and the accumulated bitangents\<close>
  "computeTangents_faces m =
     (let bitangents = replicate (length (m_vertices m)) (Vec3 0 0 0)
      in for_range3 0 (range_stop (length (m_indices m)))
           (computeTangents_face (m_indices m)) (m_vertices m, bitangents))"

definition computeTangents ::
  "'a::{zero,one,plus,minus,uminus,times,inverse,ord} float_env \<Rightarrow> 'a model \<Rightarrow> error + 'a model" where
  "computeTangents F m =
     and_then (computeTangents_faces m) (\<lambda>(vs, bitangents).
       Inr (m\<lparr>m_vertices := map (\<lambda>(v, b). orthogonalize F v b) (zip vs bitangents)\<rparr>))"

section \<open>\<open>Model::standardize\<close>\<close>

definition bounds_step :: "'a::ord vec3 \<times> 'a vec3 \<Rightarrow> 'a vertex \<Rightarrow> 'a vec3 \<times> 'a vec3" where
  \<comment> \<open>one round of the bounds loop on the pair \<open>(max, min)\<close>\<close>
  "bounds_step = (\<lambda>(mx, mn) v.
     (Vec3 (std_max (vec3_x mx) (vec3_x (position v)))
           (std_max (vec3_y mx) (vec3_y (position v)))
           (std_max (vec3_z mx) (vec3_z (position v))),
      Vec3 (std_min (vec3_x mn) (vec3_x (position v)))
           (std_min (vec3_y mn) (vec3_y (position v)))
           (std_min (vec3_z mn) (vec3_z (position v)))))"

definition bounds :: "'a::ord float_env \<Rightarrow> 'a vertex list \<Rightarrow> 'a vec3 \<times> 'a vec3" where
  "bounds F vs =
     foldl bounds_step
       (Vec3 (float_lowest F) (float_lowest F) (float_lowest F),
        Vec3 (float_max F) (float_max F) (float_max F)) vs"

definition standardize :: "'a::{plus,minus,times,inverse,ord} float_env \<Rightarrow> 'a model \<Rightarrow> 'a model" where
  "standardize F m =
     (let (mx, mn) = bounds F (m_vertices m);
          center = vec3_div (vec3_add mn mx) (float_lit F 2);
          scaling = float_lit F 2 / length_vec3 F (vec3_sub mx mn)
      in m\<lparr>m_vertices :=
             map (\<lambda>v. v\<lparr>position := vec3_scale (vec3_sub (position v) center) scaling\<rparr>)
               (m_vertices m)\<rparr>)"

section \<open>Textures and buffers\<close>

text \<open>
  \<open>glDeleteTextures\<close> and \<open>glDeleteBuffers\<close> release GPU storage and leave the members of
  the model as they are; the members change only where the source assigns them.
\<close>

definition loadDiffuseTexture :: "'a world \<Rightarrow> string \<Rightarrow> 'b model \<Rightarrow> error + 'b model" where
  "loadDiffuseTexture W path m =
     (if \<not> fs_exists W path then Inr m
      else and_then (loadTexture W path) (\<lambda>t. Inr (m\<lparr>m_diffuseTexture := t\<rparr>)))"

definition loadNormalTexture :: "'a world \<Rightarrow> string \<Rightarrow> 'b model \<Rightarrow> error + 'b model" where
  "loadNormalTexture W path m =
     (if \<not> fs_exists W path then Inr m
      else and_then (loadTexture W path) (\<lambda>t. Inr (m\<lparr>m_normalTexture := t\<rparr>)))"

definition createBuffers :: "'a world \<Rightarrow> 'b model \<Rightarrow> 'b model" where
  "createBuffers W m = m\<lparr>m_VBO := glGenBuffer_VBO W, m_EBO := glGenBuffer_EBO W\<rparr>"

section \<open>\<open>Model::loadFromFile\<close>\<close>

text \<open>
  The body of the loop over the corners of a shape. The state of the loop is the model
  and the local \<open>hash\<close>, a \<open>std::unordered_map<Vertex, GLuint>\<close>: the loader only asks it
  for \<open>count\<close> and \<open>operator[]\<close>, so it is the finite map from keys to indices. The index
  stored is \<open>m_vertices.size()\<close> converted to \<open>GLuint\<close>.
\<close>

type_synonym 'a build_state = "'a model \<times> ('a vertex_key \<rightharpoonup> GLuint)"

definition corner_vertex :: "'a::zero attrib_t \<Rightarrow> index_t \<Rightarrow> 'a model \<Rightarrow> error + ('a model \<times> 'a vertex)" where
  \<comment> \<open>the part of the body that reads the attributes, sets the two flags and fills \<open>vertex\<close>\<close>
  "corner_vertex attrib index m =
     (let startIndex = 3 * vertex_index index in
      and_then (at_int (vertices attrib) (startIndex + 0)) (\<lambda>vx.
      and_then (at_int (vertices attrib) (startIndex + 1)) (\<lambda>vy.
      and_then (at_int (vertices attrib) (startIndex + 2)) (\<lambda>vz.
      and_then
        (if 0 \<le> normal_index index
         then (let startIndex = 3 * normal_index index in
               and_then (at_int (normals attrib) (startIndex + 0)) (\<lambda>nx.
               and_then (at_int (normals attrib) (startIndex + 1)) (\<lambda>ny.
               and_then (at_int (normals attrib) (startIndex + 2)) (\<lambda>nz.
                 Inr (m\<lparr>m_hasNormals := True\<rparr>, Vec3 nx ny nz)))))
         else Inr (m, Vec3 0 0 0)) (\<lambda>(m, n).
      and_then
        (if 0 \<le> texcoord_index index
         then (let startIndex = 2 * texcoord_index index in
               and_then (at_int (texcoords attrib) (startIndex + 0)) (\<lambda>tu.
               and_then (at_int (texcoords attrib) (startIndex + 1)) (\<lambda>tv.
                 Inr (m\<lparr>m_hasTexCoords := True\<rparr>, Vec2 tu tv))))
         else Inr (m, Vec2 0 0)) (\<lambda>(m, tc).
        Inr (m, \<lparr>position = Vec3 vx vy vz, normal = n, texCoord = tc,
                 tangent = Vec4 0 0 0 0\<rparr>)))))))"

definition add_corner :: "'a vertex \<Rightarrow> 'a build_state \<Rightarrow> 'a build_state" where
  \<comment> \<open>the part of the body from \<open>if (hash.count(vertex) == 0)\<close> on\<close>
  "add_corner v = (\<lambda>(m, hash).
     let (m, hash) =
           (if hash (vertex_key v) = None
            then (m\<lparr>m_vertices := m_vertices m @ [v]\<rparr>,
                  hash(vertex_key v \<mapsto> word_of_nat (length (m_vertices m))))
            else (m, hash));
         (hash, i) = subscript hash (vertex_key v)
     in (m\<lparr>m_indices := m_indices m @ [i]\<rparr>, hash))"

definition corner_body :: "'a::zero attrib_t \<Rightarrow> index_t \<Rightarrow> 'a build_state \<Rightarrow> error + 'a build_state" where
  "corner_body attrib index = (\<lambda>(m, hash).
     and_then (corner_vertex attrib index m) (\<lambda>(m, v). Inr (add_corner v (m, hash))))"

fun indices_loop :: "'a::zero attrib_t \<Rightarrow> index_t list \<Rightarrow> 'a build_state \<Rightarrow> error + 'a build_state" where
  "indices_loop attrib [] s = Inr s"
| "indices_loop attrib (index # rest) s =
     (case corner_body attrib index s of Inl e \<Rightarrow> Inl e | Inr s' \<Rightarrow> indices_loop attrib rest s')"

fun shapes_loop :: "'a::zero attrib_t \<Rightarrow> shape_t list \<Rightarrow> 'a build_state \<Rightarrow> error + 'a build_state" where
  "shapes_loop attrib [] s = Inr s"
| "shapes_loop attrib (shape # rest) s =
     (case indices_loop attrib (mesh_indices shape) s of
        Inl e \<Rightarrow> Inl e
      | Inr s' \<Rightarrow> shapes_loop attrib rest s')"

definition build_vertex_index :: "'a::zero ObjReader \<Rightarrow> 'a model \<Rightarrow> error + 'a model" where
  \<comment> \<open>from \<open>m_vertices.clear()\<close> to the end of the loop over the shapes\<close>
  "build_vertex_index reader m =
     and_then
       (shapes_loop (reader_attrib reader) (reader_shapes reader)
          (m\<lparr>m_vertices := [], m_indices := [], m_hasNormals := False, m_hasTexCoords := False\<rparr>,
           Map.empty))
       (\<lambda>(m, hash). Inr m)"

definition resolve_material ::
  "'a::one float_env \<Rightarrow> 'a world \<Rightarrow> string \<Rightarrow> 'a material_t list \<Rightarrow> 'a model \<Rightarrow> error + 'a model" where
  \<comment> \<open>\<open>// Use properties of first material, if available\<close>\<close>
  "resolve_material F W basePath materials m =
     (case materials of
        mat # _ \<Rightarrow>
          (let m = m\<lparr>m_Ka := vec4_of (ambient mat) 1,
                     m_Kd := vec4_of (diffuse mat) 1,
                     m_Ks := vec4_of (specular mat) 1,
                     m_shininess := shininess mat\<rparr>
           in and_then
                (if diffuse_texname mat \<noteq> [] then loadDiffuseTexture W (basePath @ diffuse_texname mat) m
                 else Inr m) (\<lambda>m.
                if normal_texname mat \<noteq> [] then loadNormalTexture W (basePath @ normal_texname mat) m
                else if bump_texname mat \<noteq> [] then loadNormalTexture W (basePath @ bump_texname mat) m
                else Inr m))
      | [] \<Rightarrow>
          Inr (m\<lparr>m_Ka := Vec4 (float_lit F 0.1) (float_lit F 0.1) (float_lit F 0.1) 1,
                 m_Kd := Vec4 (float_lit F 0.7) (float_lit F 0.7) (float_lit F 0.7) 1,
                 m_Ks := Vec4 1 1 1 1,
                 m_shininess := float_lit F 25.0\<rparr>))"

text \<open>
  The whole load. A failed parse throws, with the parser's message when there is one.
  The print of \<open>reader.Warning()\<close> writes to the standard output and touches neither the
  model nor the control flow, so it has no counterpart here: a load with a warning goes
  on exactly as one without.
\<close>

definition loadFromFile ::
  "'a::{zero,one,plus,minus,uminus,times,inverse,ord} float_env \<Rightarrow> 'a world \<Rightarrow> string \<Rightarrow> bool
     \<Rightarrow> 'a model \<Rightarrow> error + 'a model" where
  "loadFromFile F W path standardize_flag m =
     (let basePath = parent_path W path @ ''/'';
          reader = ParseFromFile W path basePath
      in if \<not> parse_ok reader
         then (if reader_Error reader \<noteq> []
               then Inl (Runtime (''Failed to load model '' @ path @ '' ('' @ reader_Error reader @ '')''))
               else Inl (Runtime (''Failed to load model '' @ path)))
         else
           and_then (build_vertex_index reader m) (\<lambda>m.
           and_then (resolve_material F W basePath (reader_materials reader) m) (\<lambda>m.
           and_then (Inr (if standardize_flag then standardize F m else m)) (\<lambda>m.
           and_then (if \<not> m_hasNormals m then computeNormals F m else Inr m) (\<lambda>m.
           and_then (if m_hasTexCoords m then computeTangents F m else Inr m) (\<lambda>m.
             Inr (createBuffers W m)))))))"

section \<open>Notions of the specification\<close>

text \<open>
  The definitions of this section are not translations of source functions: they say, in
  the words of the specification, what the theorems below compare the program with.
\<close>

definition corners :: "'a ObjReader \<Rightarrow> index_t list" where
  \<comment> \<open>the input corner sequence: the corners of all shapes, in order\<close>
  "corners reader = concat (map mesh_indices (reader_shapes reader))"

definition assemble :: "'a::zero attrib_t \<Rightarrow> index_t \<Rightarrow> error + 'a vertex" where
  \<comment> \<open>the candidate vertex of a corner: position always, normal and texture coordinate
      zero-filled when absent; an index outside its attribute array is an error\<close>
  "assemble attrib index =
     and_then (at_int (vertices attrib) (3 * vertex_index index + 0)) (\<lambda>vx.
     and_then (at_int (vertices attrib) (3 * vertex_index index + 1)) (\<lambda>vy.
     and_then (at_int (vertices attrib) (3 * vertex_index index + 2)) (\<lambda>vz.
     and_then
       (if 0 \<le> normal_index index
        then and_then (at_int (normals attrib) (3 * normal_index index + 0)) (\<lambda>nx.
             and_then (at_int (normals attrib) (3 * normal_index index + 1)) (\<lambda>ny.
             and_then (at_int (normals attrib) (3 * normal_index index + 2)) (\<lambda>nz.
               Inr (Vec3 nx ny nz))))
        else Inr (Vec3 0 0 0)) (\<lambda>n.
     and_then
       (if 0 \<le> texcoord_index index
        then and_then (at_int (texcoords attrib) (2 * texcoord_index index + 0)) (\<lambda>tu.
             and_then (at_int (texcoords attrib) (2 * texcoord_index index + 1)) (\<lambda>tv.
               Inr (Vec2 tu tv)))
        else Inr (Vec2 0 0)) (\<lambda>tc.
       Inr \<lparr>position = Vec3 vx vy vz, normal = n, texCoord = tc, tangent = Vec4 0 0 0 0\<rparr>)))))"

fun assemble_all :: "'a::zero attrib_t \<Rightarrow> index_t list \<Rightarrow> error + 'a vertex list" where
  "assemble_all attrib [] = Inr []"
| "assemble_all attrib (index # rest) =
     and_then (assemble attrib index) (\<lambda>v.
     and_then (assemble_all attrib rest) (\<lambda>vs. Inr (v # vs)))"

definition supplies_normal :: "index_t list \<Rightarrow> bool" where
  \<comment> \<open>some corner supplied a normal\<close>
  "supplies_normal cs = (\<exists>c \<in> set cs. 0 \<le> normal_index c)"

definition supplies_texcoord :: "index_t list \<Rightarrow> bool" where
  \<comment> \<open>some corner supplied a texture coordinate\<close>
  "supplies_texcoord cs = (\<exists>c \<in> set cs. 0 \<le> texcoord_index c)"

definition first_seen :: "'a vertex list \<Rightarrow> nat \<Rightarrow> bool" where
  \<comment> \<open>corner \<open>j\<close> is the first occurrence of its vertex in the corner sequence\<close>
  "first_seen vs j = (vertex_key (vs ! j) \<notin> vertex_key ` set (take j vs))"

definition unique_vertices :: "'a vertex list \<Rightarrow> 'a vertex list" where
  \<comment> \<open>the vertices of the corner sequence, each once, in first-occurrence order\<close>
  "unique_vertices vs = map (\<lambda>j. vs ! j) (filter (first_seen vs) [0..<length vs])"

fun index_of :: "'k \<Rightarrow> 'k list \<Rightarrow> nat" where
  \<comment> \<open>the position of the first \<open>k\<close> in a list (its length when there is none)\<close>
  "index_of k [] = 0"
| "index_of k (x # xs) = (if x = k then 0 else Suc (index_of k xs))"

definition note_flags :: "index_t list \<Rightarrow> 'a model \<Rightarrow> 'a model" where
  \<comment> \<open>the two flags after the corners \<open>cs\<close> have been read\<close>
  "note_flags cs m =
     m\<lparr>m_hasNormals := m_hasNormals m \<or> supplies_normal cs,
       m_hasTexCoords := m_hasTexCoords m \<or> supplies_texcoord cs\<rparr>"

definition add_corners :: "'a vertex list \<Rightarrow> 'a build_state \<Rightarrow> 'a build_state" where
  \<comment> \<open>the deduplication steps for a sequence of candidate vertices\<close>
  "add_corners vs s = foldl (\<lambda>s v. add_corner v s) s vs"

definition index_in :: "'a vertex list \<Rightarrow> 'a vertex \<Rightarrow> GLuint" where
  \<comment> \<open>the position of a vertex among the unique vertices of \<open>vs\<close>, as a \<open>GLuint\<close>\<close>
  "index_in vs v = word_of_nat (index_of (vertex_key v) (map vertex_key (unique_vertices vs)))"

definition hash_of :: "'a vertex list \<Rightarrow> 'a vertex_key \<rightharpoonup> GLuint" where
  \<comment> \<open>the contents of \<open>hash\<close> after the corners \<open>vs\<close>\<close>
  "hash_of vs = (\<lambda>k. if k \<in> vertex_key ` set vs
      then Some (word_of_nat (index_of k (map vertex_key (unique_vertices vs)))) else None)"

fun triangles :: "'b list \<Rightarrow> ('b \<times> 'b \<times> 'b) list" where
  \<comment> \<open>the consecutive triplets of a sequence\<close>
  "triangles (a # b # c # rest) = (a, b, c) # triangles rest"
| "triangles rest = []"

definition face_normal :: "'a::{minus,times} vertex list \<Rightarrow> GLuint \<times> GLuint \<times> GLuint \<Rightarrow> 'a vec3" where
  \<comment> \<open>for the triplet \<open>(a, b, c)\<close>, the cross product of the edges \<open>b.position - a.position\<close>
      and \<open>c.position - b.position\<close>\<close>
  "face_normal vs = (\<lambda>(a, b, c).
     cross (vec3_sub (position (vs ! unat b)) (position (vs ! unat a)))
           (vec3_sub (position (vs ! unat c)) (position (vs ! unat b))))"

definition occurrences :: "nat \<Rightarrow> GLuint \<times> GLuint \<times> GLuint \<Rightarrow> nat" where
  \<comment> \<open>how many corners of a triplet are the vertex \<open>i\<close>\<close>
  "occurrences i = (\<lambda>(a, b, c). length (filter (\<lambda>j. unat j = i) [a, b, c]))"

definition contributions ::
  "(GLuint \<times> GLuint \<times> GLuint \<Rightarrow> 'b) \<Rightarrow> GLuint list \<Rightarrow> nat \<Rightarrow> 'b list" where
  \<comment> \<open>what the faces add to the vertex \<open>i\<close>, in order: the value \<open>f t\<close> of each triplet \<open>t\<close>,
      once for every corner of \<open>t\<close> that is \<open>i\<close>\<close>
  "contributions f indices i =
     concat (map (\<lambda>t. replicate (occurrences i t) (f t)) (triangles indices))"

definition accumulated_normal :: "'a::{zero,plus,minus,times} vertex list \<Rightarrow> GLuint list \<Rightarrow> nat \<Rightarrow> 'a vec3" where
  \<comment> \<open>the sum, from zero and in order, of the face normals added to the vertex \<open>i\<close>\<close>
  "accumulated_normal vs indices i =
     foldl vec3_add vec3_zero (contributions (face_normal vs) indices i)"

definition with_normals ::
  "'a::{zero,plus,minus,times} float_env \<Rightarrow> 'a vertex list \<Rightarrow> GLuint list \<Rightarrow> 'a vertex list" where
  \<comment> \<open>the vertices, each with the normalization of its accumulated normal\<close>
  "with_normals F vs indices =
     map (\<lambda>i. (vs ! i)\<lparr>normal := normalize F (accumulated_normal vs indices i)\<rparr>) [0..<length vs]"

definition gram_schmidt :: "'a::{plus,minus,times} vec3 \<Rightarrow> 'a vec3 \<Rightarrow> 'a vec3" where
  \<comment> \<open>the tangent \<open>t\<close> orthogonalized against the normal \<open>n\<close>: \<open>t - n * dot(n, t)\<close>\<close>
  "gram_schmidt n t = vec3_sub t (vec3_scale n (dot n t))"

definition handedness :: "'a::{zero,one,plus,minus,uminus,times,ord} vec3 \<Rightarrow> 'a vec3 \<Rightarrow> 'a vec3 \<Rightarrow> 'a" where
  \<comment> \<open>the sign of \<open>dot(cross(n, t), b)\<close>, as \<open>+1\<close> or \<open>-1\<close>\<close>
  "handedness n t b = (if dot (cross n t) b < 0 then - 1 else 1)"

definition face_tangent_of ::
  "'a::{zero,one,plus,minus,uminus,times,inverse} vertex list \<Rightarrow> GLuint \<times> GLuint \<times> GLuint
     \<Rightarrow> 'a vec4 \<times> 'a vec3" where
  \<comment> \<open>the tangent and the bitangent of the face of a triplet\<close>
  "face_tangent_of vs = (\<lambda>(a, b, c). face_tangent (vs ! unat a) (vs ! unat b) (vs ! unat c))"

definition accumulated_tangent ::
  "'a::{zero,one,plus,minus,uminus,times,inverse} vertex list \<Rightarrow> GLuint list \<Rightarrow> nat \<Rightarrow> 'a vec4" where
  \<comment> \<open>the sum, from the tangent the vertex had and in order, of the face tangents added to
      the vertex \<open>i\<close>\<close>
  "accumulated_tangent vs indices i =
     foldl vec4_add (tangent (vs ! i)) (contributions (\<lambda>t. fst (face_tangent_of vs t)) indices i)"

definition accumulated_bitangent ::
  "'a::{zero,one,plus,minus,uminus,times,inverse} vertex list \<Rightarrow> GLuint list \<Rightarrow> nat \<Rightarrow> 'a vec3" where
  \<comment> \<open>the sum, from zero and in order, of the face bitangents added to the vertex \<open>i\<close>\<close>
  "accumulated_bitangent vs indices i =
     foldl vec3_add (Vec3 0 0 0) (contributions (\<lambda>t. snd (face_tangent_of vs t)) indices i)"

definition with_tangents ::
  "'a::{zero,one,plus,minus,uminus,times,inverse,ord} float_env \<Rightarrow> 'a vertex list \<Rightarrow> GLuint list
     \<Rightarrow> 'a vertex list" where
  \<comment> \<open>the vertices, each with its accumulated tangent orthogonalized against its normal and
      normalized, and the handedness in \<open>w\<close>\<close>
  "with_tangents F vs indices =
     map (\<lambda>i. (vs ! i)\<lparr>tangent :=
            vec4_of
              (normalize F (gram_schmidt (normal (vs ! i)) (vec4_xyz (accumulated_tangent vs indices i))))
              (handedness (normal (vs ! i)) (vec4_xyz (accumulated_tangent vs indices i))
                 (accumulated_bitangent vs indices i))\<rparr>)
       [0..<length vs]"

definition tangents_step ::
  "'a::{zero,one,plus,minus,uminus,times,inverse} vertex list \<times> 'a vec3 list \<Rightarrow> GLuint \<times> GLuint \<times> GLuint
     \<Rightarrow> 'a vertex list \<times> 'a vec3 list" where
  \<comment> \<open>what one round of the face loop does to the vertices and the bitangents\<close>
  "tangents_step = (\<lambda>(vs, bs) (a, b, c).
     (add_tangent (unat c) (fst (face_tangent_of vs (a, b, c)))
        (add_tangent (unat b) (fst (face_tangent_of vs (a, b, c)))
           (add_tangent (unat a) (fst (face_tangent_of vs (a, b, c))) vs)),
      add_bitangent (unat c) (snd (face_tangent_of vs (a, b, c)))
        (add_bitangent (unat b) (snd (face_tangent_of vs (a, b, c)))
           (add_bitangent (unat a) (snd (face_tangent_of vs (a, b, c))) bs))))"

definition in_range :: "nat \<Rightarrow> GLuint \<times> GLuint \<times> GLuint \<Rightarrow> bool" where
  "in_range n = (\<lambda>(a, b, c). unat a < n \<and> unat b < n \<and> unat c < n)"

definition normals_step ::
  "'a::{plus,minus,times} vertex list \<Rightarrow> GLuint \<times> GLuint \<times> GLuint \<Rightarrow> 'a vertex list" where
  \<comment> \<open>what one round of the face loop does to the vertices\<close>
  "normals_step vs = (\<lambda>(a, b, c).
     add_normal (unat c) (face_normal vs (a, b, c))
       (add_normal (unat b) (face_normal vs (a, b, c))
          (add_normal (unat a) (face_normal vs (a, b, c)) vs)))"

definition indices_in_range :: "'a model \<Rightarrow> bool" where
  \<comment> \<open>every index is less than the number of vertices\<close>
  "indices_in_range m = (\<forall>i \<in> set (m_indices m). unat i < length (m_vertices m))"

definition mesh_of :: "error + 'a model \<Rightarrow> error + 'a vertex list \<times> GLuint list" where
  \<comment> \<open>what a run produces: the vertex sequence and the index sequence, or the exception\<close>
  "mesh_of r = map_sum id (\<lambda>m. (m_vertices m, m_indices m)) r"

definition mesh_part :: "'a model \<Rightarrow> 'a vertex list \<times> GLuint list \<times> bool \<times> bool" where
  \<comment> \<open>the members of the model that the mesh computations read\<close>
  "mesh_part m = (m_vertices m, m_indices m, m_hasNormals m, m_hasTexCoords m)"

section \<open>A concrete load\<close>

text \<open>
  The exact-arithmetic reading of the float primitives, at which concrete meshes are
  evaluated: a literal denotes its value, and the bounds are those of binary32. Where a
  float computation would produce an infinity or a NaN (a division by zero), this reading
  does not follow the floats; the meshes evaluated below stay clear of that.
\<close>

definition real_env :: "real float_env" where
  "real_env =
     \<lparr>float_lit = (\<lambda>r. r), float_sqrt = sqrt, float_inversesqrt = (\<lambda>x. 1 / sqrt x),
      float_lowest = - 340282346638528859811704183484516925440,
      float_max = 340282346638528859811704183484516925440\<rparr>"

definition blank_model :: "real model" where
  \<comment> \<open>a model before its first load\<close>
  "blank_model =
     \<lparr>m_vertices = [], m_indices = [], m_hasNormals = False, m_hasTexCoords = False,
      m_Ka = Vec4 0 0 0 0, m_Kd = Vec4 0 0 0 0, m_Ks = Vec4 0 0 0 0, m_shininess = 0,
      m_diffuseTexture = 0, m_normalTexture = 0, m_VAO = 0, m_VBO = 0, m_EBO = 0\<rparr>"

definition corner :: "int \<Rightarrow> int \<Rightarrow> int \<Rightarrow> index_t" where
  "corner v n t = \<lparr>vertex_index = v, normal_index = n, texcoord_index = t\<rparr>"

definition quad_material :: "real material_t" where
  "quad_material =
     \<lparr>ambient = Vec3 0.2 0.2 0.2, diffuse = Vec3 0.8 0.8 0.8, specular = Vec3 0.5 0.5 0.5,
      shininess = 10, diffuse_texname = ''wood.png'', normal_texname = [], bump_texname = []\<rparr>"

definition quad_reader :: "real ObjReader" where
  \<comment> \<open>the unit square in the plane \<open>z = 0\<close> as two triangles, with texture coordinates and
      no normals; its one material names a diffuse texture\<close>
  "quad_reader =
     \<lparr>parse_ok = True, reader_Error = [], reader_Warning = [],
      reader_attrib =
        \<lparr>vertices = [0, 0, 0,  1, 0, 0,  1, 1, 0,  0, 1, 0],
         normals = [],
         texcoords = [0, 0,  1, 0,  1, 1,  0, 1]\<rparr>,
      reader_shapes =
        [\<lparr>mesh_indices = [corner 0 (- 1) 0, corner 1 (- 1) 1, corner 2 (- 1) 2]\<rparr>,
         \<lparr>mesh_indices = [corner 0 (- 1) 0, corner 2 (- 1) 2, corner 3 (- 1) 3]\<rparr>],
      reader_materials = [quad_material]\<rparr>"

definition quad_world :: "real world" where
  \<comment> \<open>a world whose parser reads the quad and whose file system holds no texture\<close>
  "quad_world =
     \<lparr>ParseFromFile = (\<lambda>path mtl. quad_reader), parent_path = (\<lambda>path. ''models''),
      fs_exists = (\<lambda>path. False), loadTexture = (\<lambda>path. Inr 7),
      glGenBuffer_VBO = 1, glGenBuffer_EBO = 2\<rparr>"

definition quad_vertex :: "real \<Rightarrow> real \<Rightarrow> real vec3 \<Rightarrow> real vec4 \<Rightarrow> real vertex" where
  \<comment> \<open>the vertex of the quad at \<open>(px, py, 0)\<close>, whose texture coordinate is \<open>(px, py)\<close>\<close>
  "quad_vertex px py n t = \<lparr>position = Vec3 px py 0, normal = n, texCoord = Vec2 px py, tangent = t\<rparr>"

definition quad_mesh :: "real vec3 \<Rightarrow> (real \<Rightarrow> real vec4) \<Rightarrow> real model" where
  \<comment> \<open>the mesh of the quad in a blank model, with one normal for all vertices and a tangent
      for each\<close>
  "quad_mesh n t =
     blank_model
       \<lparr>m_vertices := [quad_vertex 0 0 n (t 0), quad_vertex 1 0 n (t 1),
                       quad_vertex 1 1 n (t 2), quad_vertex 0 1 n (t 3)],
        m_indices := [0, 1, 2, 0, 2, 3]\<rparr>"

definition quad_loaded :: "real model" where
  \<comment> \<open>the blank model after the quad has been loaded without standardization\<close>
  "quad_loaded =
     (quad_mesh (Vec3 0 0 1) (\<lambda>i. Vec4 1 0 0 1))
       \<lparr>m_hasNormals := True, m_hasTexCoords := True,
        m_Ka := Vec4 0.2 0.2 0.2 1, m_Kd := Vec4 0.8 0.8 0.8 1, m_Ks := Vec4 0.5 0.5 0.5 1,
        m_shininess := 10, m_VBO := 1, m_EBO := 2\<rparr>"

definition bare_quad_world :: "real world" where
  \<comment> \<open>the same world, with a parser that finds no material\<close>
  "bare_quad_world = quad_world\<lparr>ParseFromFile := (\<lambda>path mtl. quad_reader\<lparr>reader_materials := []\<rparr>)\<rparr>"






definition mirrored_triangle :: "real vec4 \<Rightarrow> real model" where
  \<comment> \<open>the first triangle of the quad with unit normals and the texture coordinate \<open>v\<close>
      mirrored, and one tangent for all vertices\<close>
  "mirrored_triangle t =
     blank_model
       \<lparr>m_vertices :=
          [\<lparr>position = Vec3 0 0 0, normal = Vec3 0 0 1, texCoord = Vec2 0 0, tangent = t\<rparr>,
           \<lparr>position = Vec3 1 0 0, normal = Vec3 0 0 1, texCoord = Vec2 1 0, tangent = t\<rparr>,
           \<lparr>position = Vec3 1 1 0, normal = Vec3 0 0 1, texCoord = Vec2 1 (- 1), tangent = t\<rparr>],
        m_indices := [0, 1, 2]\<rparr>"

definition box_low :: "real vec3 list \<Rightarrow> real vec3" where
  \<comment> \<open>the low corner of the axis-aligned bounding box of a non-empty list of positions\<close>
  "box_low ps = Vec3 (Min (vec3_x ` set ps)) (Min (vec3_y ` set ps)) (Min (vec3_z ` set ps))"

definition box_high :: "real vec3 list \<Rightarrow> real vec3" where
  "box_high ps = Vec3 (Max (vec3_x ` set ps)) (Max (vec3_y ` set ps)) (Max (vec3_z ` set ps))"

definition box_center :: "real vec3 list \<Rightarrow> real vec3" where
  "box_center ps = vec3_div (vec3_add (box_low ps) (box_high ps)) 2"

definition longest_half_length :: "real vec3 list \<Rightarrow> real" where
  \<comment> \<open>half the extent of the box along its longest axis\<close>
  "longest_half_length ps =
     (let e = vec3_sub (box_high ps) (box_low ps)
      in max (vec3_x e) (max (vec3_y e) (vec3_z e)) / 2)"

definition segment_mesh :: "real model" where
  \<comment> \<open>two vertices, at \<open>(0, 0, 0)\<close> and \<open>(3, 4, 0)\<close>\<close>
  "segment_mesh =
     blank_model
       \<lparr>m_vertices := [quad_vertex 0 0 (Vec3 0 0 1) (Vec4 0 0 0 0),
                       quad_vertex 3 4 (Vec3 0 0 1) (Vec4 0 0 0 0)]\<rparr>"

section \<open>A load with more unique vertices than \<open>GLuint\<close> has values\<close>

text \<open>
  \<open>wide_count\<close> corners, \<open>2 ^ 32 + 1\<close> of them, over \<open>2 ^ 16 + 1\<close> positions and \<open>2 ^ 16\<close>
  normals: corner \<open>i\<close> has position \<open>i div 2 ^ 16\<close> and normal \<open>i mod 2 ^ 16\<close>, so that no
  two corners have the same vertex. All indices are small enough for \<open>int\<close>, and all
  coordinates are integers that binary32 represents.
\<close>

definition wide_count :: nat where
  "wide_count = 4294967297"

definition wide_corner :: "nat \<Rightarrow> index_t" where
  "wide_corner i = corner (int (i div 65536)) (int (i mod 65536)) (- 1)"

definition wide_reader :: "real ObjReader" where
  "wide_reader =
     \<lparr>parse_ok = True, reader_Error = [], reader_Warning = [],
      reader_attrib =
        \<lparr>vertices = map real [0..<3 * 65537], normals = map real [0..<3 * 65536], texcoords = []\<rparr>,
      reader_shapes = [\<lparr>mesh_indices = map wide_corner [0..<wide_count]\<rparr>],
      reader_materials = []\<rparr>"

definition wide_vertex :: "nat \<Rightarrow> real vertex" where
  \<comment> \<open>the vertex of corner \<open>i\<close>\<close>
  "wide_vertex i =
     \<lparr>position = Vec3 (real (3 * (i div 65536))) (real (3 * (i div 65536) + 1))
                   (real (3 * (i div 65536) + 2)),
      normal = Vec3 (real (3 * (i mod 65536))) (real (3 * (i mod 65536) + 1))
                 (real (3 * (i mod 65536) + 2)),
      texCoord = Vec2 0 0, tangent = Vec4 0 0 0 0\<rparr>"

definition wide_built :: "real model" where
  \<comment> \<open>what the build makes of it: every corner a vertex of its own, and the index of
      corner \<open>i\<close> the \<open>GLuint\<close> that \<open>i\<close> converts to\<close>
  "wide_built =
     blank_model\<lparr>m_vertices := map wide_vertex [0..<wide_count],
                 m_indices := map word_of_nat [0..<wide_count],
                 m_hasNormals := True\<rparr>"

section \<open>A mesh with more indices than \<open>int\<close> has positive values\<close>

text \<open>
  One triangle of the quad, \<open>715827883\<close> times over: \<open>2 ^ 31 + 1\<close> indices, a multiple of 3,
  all in range.
\<close>

definition many_indices :: "GLuint list" where
  "many_indices = concat (replicate 715827883 [0, 1, 2])"

definition many_mesh :: "real model" where
  "many_mesh =
     blank_model
       \<lparr>m_vertices := [quad_vertex 0 0 (Vec3 0 0 0) (Vec4 0 0 0 0),
                       quad_vertex 1 0 (Vec3 0 0 0) (Vec4 0 0 0 0),
                       quad_vertex 1 1 (Vec3 0 0 0) (Vec4 0 0 0 0)],
        m_indices := many_indices\<rparr>"

section \<open>Basic facts about the exception type and the loops\<close>

lemma and_then_Inr_iff:
  "and_then r f = Inr y \<longleftrightarrow> (\<exists>v. r = Inr v \<and> f v = Inr y)"
  by (cases r) (simp_all add: and_then_def)

lemma for_range3_invariant:
  assumes "for_range3 offset stop body s = Inr s'" and "P s"
    and step: "\<And>i t t'. P t \<Longrightarrow> body i t = Inr t' \<Longrightarrow> P t'"
  shows "P s'"
  using assms
proof (induction offset stop body s rule: for_range3.induct)
  case (1 offset stop body s)
  show ?case
  proof (cases "offset < stop")
    case False
    with "1.prems" show ?thesis by (simp add: for_range3.simps)
  next
    case True
    with "1.prems"(1) obtain t where t: "body offset s = Inr t"
      and rest: "for_range3 (offset + 3) stop body t = Inr s'"
      by (subst (asm) for_range3.simps) (auto split: sum.splits)
    from "1.prems"(3) [OF "1.prems"(2) t] have "P t" .
    with "1.IH" [OF True t rest] "1.prems"(3) show ?thesis by blast
  qed
qed

lemma length_add_normal [simp]: "length (add_normal i n vs) = length vs"
  by (simp add: add_normal_def)

lemma length_add_tangent [simp]: "length (add_tangent i n vs) = length vs"
  by (simp add: add_tangent_def)

lemma length_add_bitangent [simp]: "length (add_bitangent i n vs) = length vs"
  by (simp add: add_bitangent_def)

lemma computeNormals_face_length:
  "computeNormals_face is off vs = Inr vs' \<Longrightarrow> length vs' = length vs"
  by (auto simp: computeNormals_face_def and_then_Inr_iff Let_def)

lemma computeTangents_face_length:
  "computeTangents_face is off (vs, bs) = Inr (vs', bs') \<Longrightarrow>
     length vs' = length vs \<and> length bs' = length bs"
  by (auto simp: computeTangents_face_def and_then_Inr_iff Let_def case_prod_beta)

lemma computeNormals_frame:
  assumes "computeNormals F m = Inr m'"
  shows "\<exists>vs. length vs = length (m_vertices m) \<and> m' = m\<lparr>m_vertices := vs, m_hasNormals := True\<rparr>"
proof -
  from assms obtain vs1 where
    loop: "for_range3 0 (range_stop (length (m_indices m))) (computeNormals_face (m_indices m))
             (map (\<lambda>v. v\<lparr>normal := vec3_zero\<rparr>) (m_vertices m)) = Inr vs1"
    and m': "m' = m\<lparr>m_vertices := map (\<lambda>v. v\<lparr>normal := normalize F (normal v)\<rparr>) vs1,
                   m_hasNormals := True\<rparr>"
    by (auto simp: computeNormals_def and_then_Inr_iff Let_def)
  have "length vs1 = length (m_vertices m)"
    by (rule for_range3_invariant [OF loop, where P = "\<lambda>vs. length vs = length (m_vertices m)"])
       (simp_all add: computeNormals_face_length)
  with m' show ?thesis
    by (intro exI [of _ "map (\<lambda>v. v\<lparr>normal := normalize F (normal v)\<rparr>) vs1"]) simp
qed

lemma computeTangents_frame:
  assumes "computeTangents F m = Inr m'"
  shows "\<exists>vs. length vs = length (m_vertices m) \<and> m' = m\<lparr>m_vertices := vs\<rparr>"
proof -
  from assms obtain vs1 bs1 where
    loop: "for_range3 0 (range_stop (length (m_indices m))) (computeTangents_face (m_indices m))
             (m_vertices m, replicate (length (m_vertices m)) (Vec3 0 0 0)) = Inr (vs1, bs1)"
    and m': "m' = m\<lparr>m_vertices := map (\<lambda>(v, b). orthogonalize F v b) (zip vs1 bs1)\<rparr>"
    by (auto simp: computeTangents_def computeTangents_faces_def and_then_Inr_iff Let_def)
  have "length (fst (vs1, bs1)) = length (m_vertices m) \<and> length (snd (vs1, bs1)) = length (m_vertices m)"
    by (rule for_range3_invariant [OF loop,
          where P = "\<lambda>s. length (fst s) = length (m_vertices m) \<and> length (snd s) = length (m_vertices m)"])
       (auto dest: computeTangents_face_length)
  with m' show ?thesis
    by (intro exI [of _ "map (\<lambda>(v, b). orthogonalize F v b) (zip vs1 bs1)"]) simp
qed

lemma standardize_frame:
  "\<exists>vs. length vs = length (m_vertices m) \<and> standardize F m = m\<lparr>m_vertices := vs\<rparr>"
  by (simp add: standardize_def Let_def case_prod_beta)
     (metis length_map)

section \<open>The vertex and index build as a deduplication of the assembled corners\<close>

lemma and_then_Inr [simp]: "and_then (Inr v) f = f v"
  by (simp add: and_then_def)

lemma and_then_Inl [simp]: "and_then (Inl e) f = Inl e"
  by (simp add: and_then_def)

lemma and_then_assoc: "and_then (and_then r f) g = and_then r (\<lambda>v. and_then (f v) g)"
  by (cases r) simp_all

lemma corner_vertex_assemble:
  "corner_vertex attrib index m =
     and_then (assemble attrib index) (\<lambda>v. Inr (note_flags [index] m, v))"
  by (auto simp: corner_vertex_def assemble_def note_flags_def supplies_normal_def
        supplies_texcoord_def and_then_def Let_def split: sum.splits)

lemma note_flags_Nil [simp]: "note_flags [] m = m"
  by (simp add: note_flags_def supplies_normal_def supplies_texcoord_def)

lemma note_flags_Cons: "note_flags cs (note_flags [c] m) = note_flags (c # cs) m"
  by (auto simp: note_flags_def supplies_normal_def supplies_texcoord_def)

lemma note_flags_append: "note_flags ds (note_flags cs m) = note_flags (cs @ ds) m"
  by (simp add: note_flags_def supplies_normal_def supplies_texcoord_def bex_Un disj_assoc)

lemma add_corner_note_flags:
  "add_corner v (note_flags cs m, h) =
     (note_flags cs (fst (add_corner v (m, h))), snd (add_corner v (m, h)))"
  by (simp add: add_corner_def note_flags_def Let_def case_prod_beta)

lemma add_corners_note_flags:
  "add_corners vs (note_flags cs m, h) =
     (note_flags cs (fst (add_corners vs (m, h))), snd (add_corners vs (m, h)))"
proof (induction vs arbitrary: m h)
  case Nil
  show ?case by (simp add: add_corners_def)
next
  case (Cons v vs)
  have "add_corners (v # vs) (note_flags cs m, h) = add_corners vs (add_corner v (note_flags cs m, h))"
    by (simp add: add_corners_def)
  also have "\<dots> = add_corners vs (note_flags cs (fst (add_corner v (m, h))), snd (add_corner v (m, h)))"
    by (simp only: add_corner_note_flags)
  also have "\<dots> = (note_flags cs (fst (add_corners vs (add_corner v (m, h)))),
                     snd (add_corners vs (add_corner v (m, h))))"
    using Cons.IH [of "fst (add_corner v (m, h))" "snd (add_corner v (m, h))"] by simp
  finally show ?case by (simp add: add_corners_def)
qed

lemma indices_loop_eq:
  "indices_loop attrib cs (m, h) =
     and_then (assemble_all attrib cs) (\<lambda>vs. Inr (add_corners vs (note_flags cs m, h)))"
proof (induction cs arbitrary: m h)
  case Nil
  show ?case by (simp add: add_corners_def)
next
  case (Cons c cs)
  show ?case
  proof (cases "assemble attrib c")
    case (Inl e)
    then show ?thesis by (simp add: corner_body_def corner_vertex_assemble)
  next
    case (Inr v)
    obtain m1 h1 where s1: "add_corner v (m, h) = (m1, h1)" by (cases "add_corner v (m, h)")
    have body: "corner_body attrib c (m, h) = Inr (note_flags [c] m1, h1)"
      using s1 by (simp add: corner_body_def corner_vertex_assemble Inr add_corner_note_flags)
    have "add_corners vs (note_flags cs (note_flags [c] m1), h1) =
            add_corners (v # vs) (note_flags (c # cs) m, h)" for vs
      using s1 by (simp add: add_corners_def note_flags_Cons add_corner_note_flags)
    with body Cons.IH [of "note_flags [c] m1" h1] show ?thesis
      by (cases "assemble_all attrib cs") (simp_all add: Inr)
  qed
qed

lemma assemble_all_append:
  "assemble_all attrib (cs @ ds) =
     and_then (assemble_all attrib cs) (\<lambda>vs.
     and_then (assemble_all attrib ds) (\<lambda>ws. Inr (vs @ ws)))"
proof (induction cs)
  case Nil
  show ?case by (cases "assemble_all attrib ds") simp_all
next
  case (Cons c cs)
  show ?case
    by (cases "assemble attrib c"; cases "assemble_all attrib cs"; cases "assemble_all attrib ds")
       (simp_all add: Cons.IH)
qed

lemma add_corners_append: "add_corners (vs @ ws) s = add_corners ws (add_corners vs s)"
  by (simp add: add_corners_def)

lemma indices_loop_append:
  "indices_loop attrib (cs @ ds) s =
     and_then (indices_loop attrib cs s) (indices_loop attrib ds)"
proof (induction cs arbitrary: s)
  case Nil
  show ?case by simp
next
  case (Cons c cs)
  show ?case by (cases "corner_body attrib c s") (simp_all add: Cons.IH)
qed

lemma shapes_loop_corners:
  "shapes_loop attrib shs s = indices_loop attrib (concat (map mesh_indices shs)) s"
proof (induction shs arbitrary: s)
  case Nil
  show ?case by simp
next
  case (Cons sh shs)
  show ?case
    by (cases "indices_loop attrib (mesh_indices sh) s") (simp_all add: indices_loop_append Cons.IH)
qed

lemma index_of_append_in: "k \<in> set ks \<Longrightarrow> index_of k (ks @ ls) = index_of k ks"
  by (induction ks) auto

lemma index_of_append_notin: "k \<notin> set ks \<Longrightarrow> index_of k (ks @ ls) = length ks + index_of k ls"
  by (induction ks) auto

lemma index_of_less: "k \<in> set ks \<Longrightarrow> index_of k ks < length ks"
  by (induction ks) auto

lemma nth_index_of: "k \<in> set ks \<Longrightarrow> ks ! index_of k ks = k"
  by (induction ks) auto

lemma index_of_nth_distinct: "distinct ks \<Longrightarrow> j < length ks \<Longrightarrow> index_of (ks ! j) ks = j"
proof (induction ks arbitrary: j)
  case Nil
  then show ?case by simp
next
  case (Cons k ks)
  then show ?case by (cases j) auto
qed

lemma first_seen_snoc_old: "j < length vs \<Longrightarrow> first_seen (vs @ [v]) j = first_seen vs j"
  by (simp add: first_seen_def nth_append)

lemma first_seen_snoc_new:
  "first_seen (vs @ [v]) (length vs) = (vertex_key v \<notin> vertex_key ` set vs)"
  by (simp add: first_seen_def)

lemma unique_vertices_snoc:
  "unique_vertices (vs @ [v]) =
     (if vertex_key v \<in> vertex_key ` set vs then unique_vertices vs else unique_vertices vs @ [v])"
proof -
  have old: "filter (first_seen (vs @ [v])) [0..<length vs] = filter (first_seen vs) [0..<length vs]"
    by (rule filter_cong) (simp_all add: first_seen_snoc_old)
  have nth: "map (\<lambda>j. (vs @ [v]) ! j) (filter (first_seen vs) [0..<length vs]) =
             map (\<lambda>j. vs ! j) (filter (first_seen vs) [0..<length vs])"
    by (rule map_cong) (auto simp: nth_append)
  show ?thesis
    using nth by (simp add: unique_vertices_def old first_seen_snoc_new)
qed

lemma unique_vertices_Nil [simp]: "unique_vertices [] = []"
  by (simp add: unique_vertices_def)

lemma keys_unique_vertices: "vertex_key ` set (unique_vertices vs) = vertex_key ` set vs"
  by (induction vs rule: rev_induct) (auto simp: unique_vertices_snoc)

lemma distinct_keys_unique_vertices: "distinct (map vertex_key (unique_vertices vs))"
proof (induction vs rule: rev_induct)
  case Nil
  show ?case by simp
next
  case (snoc v vs)
  then show ?case
    using keys_unique_vertices [of vs] by (auto simp: unique_vertices_snoc)
qed

lemma index_in_snoc_old:
  "vertex_key w \<in> vertex_key ` set vs \<Longrightarrow> index_in (vs @ [v]) w = index_in vs w"
  using keys_unique_vertices [of vs]
  by (auto simp: index_in_def unique_vertices_snoc index_of_append_in)

lemma index_in_snoc_new:
  "vertex_key v \<notin> vertex_key ` set vs \<Longrightarrow>
     index_in (vs @ [v]) v = word_of_nat (length (unique_vertices vs))"
  using keys_unique_vertices [of vs]
  by (simp add: index_in_def unique_vertices_snoc index_of_append_notin)

lemma add_corners_from_empty:
  assumes "m_vertices m = []" and "m_indices m = []"
  shows "add_corners vs (m, Map.empty) =
           (m\<lparr>m_vertices := unique_vertices vs, m_indices := map (index_in vs) vs\<rparr>, hash_of vs)"
proof (induction vs rule: rev_induct)
  case Nil
  have "m\<lparr>m_vertices := [], m_indices := []\<rparr> = m" using assms by simp
  then show ?case by (simp add: add_corners_def hash_of_def fun_eq_iff)
next
  case (snoc v vs)
  have step: "add_corners (vs @ [v]) (m, Map.empty) =
      add_corner v (m\<lparr>m_vertices := unique_vertices vs, m_indices := map (index_in vs) vs\<rparr>, hash_of vs)"
    by (simp add: add_corners_append snoc.IH) (simp add: add_corners_def)
  have old_idx: "map (index_in (vs @ [v])) vs = map (index_in vs) vs"
    by (rule map_cong) (simp_all add: index_in_snoc_old)
  show ?case
  proof (cases "vertex_key v \<in> vertex_key ` set vs")
    case True
    have h: "hash_of (vs @ [v]) = hash_of vs"
      using True by (auto simp: hash_of_def fun_eq_iff unique_vertices_snoc)
    have "hash_of vs (vertex_key v) = Some (index_in vs v)"
      using True by (simp add: hash_of_def index_in_def)
    then show ?thesis
      using True
      by (simp add: step add_corner_def subscript_def Let_def unique_vertices_snoc old_idx h
            index_in_snoc_old)
  next
    case False
    have none: "hash_of vs (vertex_key v) = None"
      using False by (simp add: hash_of_def)
    have h: "hash_of (vs @ [v]) = (hash_of vs)(vertex_key v \<mapsto> word_of_nat (length (unique_vertices vs)))"
      using False keys_unique_vertices [of vs]
      by (auto simp: hash_of_def fun_eq_iff unique_vertices_snoc index_of_append_in
            index_of_append_notin)
    show ?thesis
      using False
      by (simp add: step add_corner_def subscript_def Let_def none unique_vertices_snoc old_idx h
            index_in_snoc_new fun_upd_def)
  qed
qed

lemma build_vertex_index_eq:
  "build_vertex_index reader m =
     and_then (assemble_all (reader_attrib reader) (corners reader)) (\<lambda>vs.
       Inr (m\<lparr>m_vertices := unique_vertices vs, m_indices := map (index_in vs) vs,
              m_hasNormals := supplies_normal (corners reader),
              m_hasTexCoords := supplies_texcoord (corners reader)\<rparr>))"
proof (cases "assemble_all (reader_attrib reader) (corners reader)")
  case (Inl e)
  then show ?thesis
    by (simp add: build_vertex_index_def shapes_loop_corners indices_loop_eq corners_def)
next
  case (Inr vs)
  let ?m0 = "m\<lparr>m_vertices := [], m_indices := [], m_hasNormals := False, m_hasTexCoords := False\<rparr>"
  have "add_corners vs (note_flags (corners reader) ?m0, Map.empty) =
          ((note_flags (corners reader) ?m0)\<lparr>m_vertices := unique_vertices vs,
             m_indices := map (index_in vs) vs\<rparr>, hash_of vs)"
    by (rule add_corners_from_empty) (simp_all add: note_flags_def)
  with Inr show ?thesis
    by (simp add: build_vertex_index_def shapes_loop_corners indices_loop_eq corners_def
          note_flags_def)
qed

lemma assemble_tangent: "assemble attrib c = Inr v \<Longrightarrow> tangent v = Vec4 0 0 0 0"
  by (auto simp: assemble_def and_then_Inr_iff split: if_splits)

lemma assemble_all_nth:
  "assemble_all attrib cs = Inr vs \<Longrightarrow>
     length vs = length cs \<and> (\<forall>j < length cs. assemble attrib (cs ! j) = Inr (vs ! j))"
proof (induction cs arbitrary: vs)
  case Nil
  then show ?case by simp
next
  case (Cons c cs)
  from Cons.prems obtain v ws where v: "assemble attrib c = Inr v"
    and ws: "assemble_all attrib cs = Inr ws" and vs: "vs = v # ws"
    by (auto simp: and_then_Inr_iff)
  from Cons.IH [OF ws] v vs show ?case
    by (auto simp: nth_Cons split: nat.splits)
qed

lemma assemble_all_Inr:
  "(\<And>j. j < length cs \<Longrightarrow> assemble attrib (cs ! j) = Inr (f j)) \<Longrightarrow>
     assemble_all attrib cs = Inr (map f [0..<length cs])"
proof (induction cs arbitrary: f)
  case Nil
  show ?case by simp
next
  case (Cons c cs)
  have "assemble attrib c = Inr (f 0)" using Cons.prems [of 0] by simp
  moreover have "assemble_all attrib cs = Inr (map (\<lambda>j. f (Suc j)) [0..<length cs])"
    by (rule Cons.IH) (use Cons.prems in force)
  ultimately show ?case
    by (simp add: upt_conv_Cons map_Suc_upt [symmetric] del: upt_Suc)
qed

lemma vertex_key_eq_iff:
  "tangent (v::'a vertex) = tangent w \<Longrightarrow> (vertex_key v = vertex_key w) = (v = w)"
  by (cases v; cases w) (auto simp: vertex_key_def)

lemma unat_index_in_less:
  assumes "v \<in> set vs"
  shows "unat (index_in vs v) < length (unique_vertices vs)"
proof -
  have "vertex_key v \<in> set (map vertex_key (unique_vertices vs))"
    using assms keys_unique_vertices [of vs] by auto
  then have "index_of (vertex_key v) (map vertex_key (unique_vertices vs)) < length (unique_vertices vs)"
    using index_of_less by fastforce
  moreover have "unat (index_in vs v) \<le> index_of (vertex_key v) (map vertex_key (unique_vertices vs))"
    by (simp add: index_in_def unat_of_nat)
  ultimately show ?thesis by simp
qed

lemma build_indices_in_range:
  assumes "build_vertex_index reader m = Inr m'"
  shows "indices_in_range m'" and "length (m_indices m') = length (corners reader)"
proof -
  from assms obtain vs where vs: "assemble_all (reader_attrib reader) (corners reader) = Inr vs"
    and m': "m' = m\<lparr>m_vertices := unique_vertices vs, m_indices := map (index_in vs) vs,
              m_hasNormals := supplies_normal (corners reader),
              m_hasTexCoords := supplies_texcoord (corners reader)\<rparr>"
    by (auto simp: build_vertex_index_eq and_then_Inr_iff)
  show "indices_in_range m'"
    by (auto simp: indices_in_range_def m' unat_index_in_less)
  show "length (m_indices m') = length (corners reader)"
    using assemble_all_nth [OF vs] by (simp add: m')
qed


lemma loadFromFile_Inr_iff:
  "loadFromFile F W path flag m = Inr m' \<longleftrightarrow>
     parse_ok (ParseFromFile W path (parent_path W path @ ''/'')) \<and>
     (\<exists>m1 m2 m4 m5.
        build_vertex_index (ParseFromFile W path (parent_path W path @ ''/'')) m = Inr m1 \<and>
        resolve_material F W (parent_path W path @ ''/'')
          (reader_materials (ParseFromFile W path (parent_path W path @ ''/''))) m1 = Inr m2 \<and>
        (if \<not> m_hasNormals (if flag then standardize F m2 else m2)
         then computeNormals F (if flag then standardize F m2 else m2)
         else Inr (if flag then standardize F m2 else m2)) = Inr m4 \<and>
        (if m_hasTexCoords m4 then computeTangents F m4 else Inr m4) = Inr m5 \<and>
        m' = createBuffers W m5)"
proof (cases "parse_ok (ParseFromFile W path (parent_path W path @ ''/''))")
  case False
  then show ?thesis by (simp add: loadFromFile_def Let_def)
next
  case True
  have eq: "(createBuffers W v = m') = (m' = createBuffers W v)" for v by auto
  show ?thesis
    by (simp only: loadFromFile_def Let_def and_then_Inr_iff True not_True_eq_False if_False
          sum.inject simp_thms eq ex_simps)
qed

section \<open>What each step of a load leaves unchanged\<close>

lemma loadDiffuseTexture_frame:
  "loadDiffuseTexture W p m = Inr m' \<Longrightarrow> \<exists>t. m' = m\<lparr>m_diffuseTexture := t\<rparr>"
  by (cases "fs_exists W p")
     (auto simp: loadDiffuseTexture_def and_then_Inr_iff intro: exI [of _ "m_diffuseTexture m"])

lemma loadNormalTexture_frame:
  "loadNormalTexture W p m = Inr m' \<Longrightarrow> \<exists>t. m' = m\<lparr>m_normalTexture := t\<rparr>"
  by (cases "fs_exists W p")
     (auto simp: loadNormalTexture_def and_then_Inr_iff intro: exI [of _ "m_normalTexture m"])

lemma resolve_material_Nil:
  "resolve_material F W bp [] m =
     Inr (m\<lparr>m_Ka := Vec4 (float_lit F 0.1) (float_lit F 0.1) (float_lit F 0.1) 1,
            m_Kd := Vec4 (float_lit F 0.7) (float_lit F 0.7) (float_lit F 0.7) 1,
            m_Ks := Vec4 1 1 1 1,
            m_shininess := float_lit F 25\<rparr>)"
  by (simp add: resolve_material_def)

lemma resolve_material_Cons:
  assumes "resolve_material F W bp (mat # rest) m = Inr m'"
  shows "\<exists>dt nt. m' = m\<lparr>m_Ka := vec4_of (ambient mat) 1, m_Kd := vec4_of (diffuse mat) 1,
                        m_Ks := vec4_of (specular mat) 1, m_shininess := shininess mat,
                        m_diffuseTexture := dt, m_normalTexture := nt\<rparr>"
proof -
  let ?m0 = "m\<lparr>m_Ka := vec4_of (ambient mat) 1, m_Kd := vec4_of (diffuse mat) 1,
               m_Ks := vec4_of (specular mat) 1, m_shininess := shininess mat\<rparr>"
  from assms obtain m1 where
    d: "(if diffuse_texname mat \<noteq> [] then loadDiffuseTexture W (bp @ diffuse_texname mat) ?m0
         else Inr ?m0) = Inr m1"
    and n: "(if normal_texname mat \<noteq> [] then loadNormalTexture W (bp @ normal_texname mat) m1
             else if bump_texname mat \<noteq> [] then loadNormalTexture W (bp @ bump_texname mat) m1
             else Inr m1) = Inr m'"
    by (auto simp: resolve_material_def Let_def and_then_Inr_iff)
  from d obtain dt where m1: "m1 = ?m0\<lparr>m_diffuseTexture := dt\<rparr>"
    by (cases "diffuse_texname mat \<noteq> []")
       (auto dest: loadDiffuseTexture_frame intro: that [of "m_diffuseTexture m"])
  from n obtain nt where "m' = m1\<lparr>m_normalTexture := nt\<rparr>"
    by (cases "normal_texname mat \<noteq> []"; cases "bump_texname mat \<noteq> []")
       (auto dest: loadNormalTexture_frame intro: that [of "m_normalTexture m1"])
  with m1 show ?thesis by auto
qed

lemma resolve_material_mesh:
  assumes "resolve_material F W bp mats m = Inr m'"
  shows "m_vertices m' = m_vertices m" "m_indices m' = m_indices m"
    "m_hasNormals m' = m_hasNormals m" "m_hasTexCoords m' = m_hasTexCoords m"
proof -
  have "m_vertices m' = m_vertices m \<and> m_indices m' = m_indices m \<and>
        m_hasNormals m' = m_hasNormals m \<and> m_hasTexCoords m' = m_hasTexCoords m"
  proof (cases mats)
    case Nil
    with assms show ?thesis by (auto simp: resolve_material_Nil)
  next
    case (Cons mat rest)
    with assms resolve_material_Cons [of F W bp mat rest m m'] show ?thesis by auto
  qed
  then show "m_vertices m' = m_vertices m" "m_indices m' = m_indices m"
    "m_hasNormals m' = m_hasNormals m" "m_hasTexCoords m' = m_hasTexCoords m" by simp_all
qed

lemma normals_step_hasNormals:
  "(if \<not> m_hasNormals m then computeNormals F m else Inr m) = Inr m' \<Longrightarrow> m_hasNormals m'"
  by (cases "m_hasNormals m") (auto dest: computeNormals_frame)

lemma normals_step_frame:
  assumes "(if \<not> m_hasNormals m then computeNormals F m else Inr m) = Inr m'"
  shows "\<exists>vs. length vs = length (m_vertices m) \<and> m' = m\<lparr>m_vertices := vs, m_hasNormals := True\<rparr>"
proof (cases "m_hasNormals m")
  case True
  with assms have "m' = m\<lparr>m_vertices := m_vertices m, m_hasNormals := True\<rparr>" by simp
  then show ?thesis by blast
next
  case False
  with assms show ?thesis by (simp add: computeNormals_frame)
qed

lemma tangents_step_frame:
  assumes "(if m_hasTexCoords m then computeTangents F m else Inr m) = Inr m'"
  shows "\<exists>vs. length vs = length (m_vertices m) \<and> m' = m\<lparr>m_vertices := vs\<rparr>"
proof (cases "m_hasTexCoords m")
  case False
  with assms have "m' = m\<lparr>m_vertices := m_vertices m\<rparr>" by simp
  then show ?thesis by blast
next
  case True
  with assms show ?thesis by (simp add: computeTangents_frame)
qed

lemma standardize_step_frame:
  "\<exists>vs. length vs = length (m_vertices m) \<and>
     (if flag then standardize F m else m) = m\<lparr>m_vertices := vs\<rparr>"
proof (cases flag)
  case True
  then show ?thesis using standardize_frame [of m F] by simp
next
  case False
  have "m = m\<lparr>m_vertices := m_vertices m\<rparr>" by simp
  with False show ?thesis by (intro exI [of _ "m_vertices m"]) simp
qed

text \<open>What a successful load leaves of the model after the material step.\<close>

lemma loadFromFile_frame:
  assumes "loadFromFile F W path flag m = Inr m'"
  obtains m1 m2 vs where
    "build_vertex_index (ParseFromFile W path (parent_path W path @ ''/'')) m = Inr m1"
    "resolve_material F W (parent_path W path @ ''/'')
       (reader_materials (ParseFromFile W path (parent_path W path @ ''/''))) m1 = Inr m2"
    "length vs = length (m_vertices m2)"
    "m' = m2\<lparr>m_vertices := vs, m_hasNormals := True,
             m_VBO := glGenBuffer_VBO W, m_EBO := glGenBuffer_EBO W\<rparr>"
proof -
  from assms obtain m1 m2 m4 m5 where
    b: "build_vertex_index (ParseFromFile W path (parent_path W path @ ''/'')) m = Inr m1"
    and r: "resolve_material F W (parent_path W path @ ''/'')
       (reader_materials (ParseFromFile W path (parent_path W path @ ''/''))) m1 = Inr m2"
    and n: "(if \<not> m_hasNormals (if flag then standardize F m2 else m2)
             then computeNormals F (if flag then standardize F m2 else m2)
             else Inr (if flag then standardize F m2 else m2)) = Inr m4"
    and t: "(if m_hasTexCoords m4 then computeTangents F m4 else Inr m4) = Inr m5"
    and m': "m' = createBuffers W m5"
    unfolding loadFromFile_Inr_iff by blast
  from standardize_step_frame [of m2 flag F] obtain vs3 where
    3: "length vs3 = length (m_vertices m2)" "(if flag then standardize F m2 else m2) = m2\<lparr>m_vertices := vs3\<rparr>"
    by blast
  from normals_step_frame [OF n] 3 obtain vs4 where
    4: "length vs4 = length (m_vertices m2)" "m4 = m2\<lparr>m_vertices := vs4, m_hasNormals := True\<rparr>"
    by auto
  from tangents_step_frame [OF t] 4 obtain vs5 where
    5: "length vs5 = length (m_vertices m2)" "m5 = m2\<lparr>m_vertices := vs5, m_hasNormals := True\<rparr>"
    by auto
  show thesis
    by (rule that [OF b r 5(1)]) (simp add: m' 5(2) createBuffers_def)
qed

section \<open>The quad, evaluated\<close>

lemmas build_defs = build_vertex_index_def corner_body_def corner_vertex_def add_corner_def
  subscript_def at_int_def at_nat_def vertex_key_def corner_def

lemma quad_build:
  "build_vertex_index quad_reader blank_model =
     Inr ((quad_mesh (Vec3 0 0 0) (\<lambda>i. Vec4 0 0 0 0))\<lparr>m_hasTexCoords := True\<rparr>)"
  by (simp add: quad_reader_def blank_model_def quad_mesh_def quad_vertex_def build_defs)

lemmas glm_defs = vec2_sub_def vec3_zero_def vec3_add_def vec3_sub_def vec3_scale_def vec3_div_def
  vec4_add_def vec4_xyz_def vec4_of_def cross_def dot_def normalize_def length_vec3_def

lemma quad_normals:
  "computeNormals real_env ((quad_mesh (Vec3 0 0 0) (\<lambda>i. Vec4 0 0 0 0))\<lparr>m_hasTexCoords := True\<rparr>) =
     Inr ((quad_mesh (Vec3 0 0 1) (\<lambda>i. Vec4 0 0 0 0))\<lparr>m_hasTexCoords := True, m_hasNormals := True\<rparr>)"
  by (simp add: computeNormals_def computeNormals_face_def add_normal_def range_stop_def
        for_range3.simps at_int_def at_nat_def quad_mesh_def quad_vertex_def blank_model_def
        real_env_def glm_defs)

lemma quad_tangents:
  "computeTangents real_env ((quad_mesh (Vec3 0 0 1) (\<lambda>i. Vec4 0 0 0 0))\<lparr>m_hasTexCoords := True, m_hasNormals := True\<rparr>) =
     Inr ((quad_mesh (Vec3 0 0 1) (\<lambda>i. Vec4 1 0 0 1))\<lparr>m_hasTexCoords := True, m_hasNormals := True\<rparr>)"
  by (simp add: computeTangents_def computeTangents_faces_def computeTangents_face_def
        add_tangent_def add_bitangent_def
        face_tangent_def orthogonalize_def range_stop_def
        for_range3.simps at_int_def at_nat_def quad_mesh_def quad_vertex_def blank_model_def
        real_env_def glm_defs)

lemmas normals_defs = computeNormals_def computeNormals_face_def add_normal_def range_stop_def
  for_range3.simps at_int_def at_nat_def

lemmas tangents_defs = computeTangents_def computeTangents_faces_def computeTangents_face_def
  add_tangent_def
  add_bitangent_def face_tangent_def orthogonalize_def range_stop_def for_range3.simps
  at_int_def at_nat_def

lemmas material_defs = resolve_material_def loadDiffuseTexture_def loadNormalTexture_def
  createBuffers_def quad_material_def

lemma quad_load:
  "loadFromFile real_env quad_world ''models/quad.obj'' False blank_model = Inr quad_loaded"
  by (simp add: loadFromFile_def quad_world_def quad_build)
     (simp add: material_defs normals_defs tangents_defs quad_reader_def quad_mesh_def
        quad_vertex_def blank_model_def quad_loaded_def real_env_def glm_defs)

lemma bare_quad_load:
  "loadFromFile real_env bare_quad_world ''models/quad.obj'' False blank_model =
     Inr (quad_loaded\<lparr>m_Ka := Vec4 0.1 0.1 0.1 1, m_Kd := Vec4 0.7 0.7 0.7 1,
                      m_Ks := Vec4 1 1 1 1, m_shininess := 25\<rparr>)"
  by (simp add: loadFromFile_def bare_quad_world_def quad_world_def)
     (simp add: build_defs material_defs normals_defs tangents_defs quad_reader_def quad_mesh_def
        quad_vertex_def blank_model_def quad_loaded_def real_env_def glm_defs)


section \<open>The mesh invariant\<close>

text \<open>
  Claim C6. After the vertex and index build completes, every index is less than the
  number of vertices, and when the input corners come in triangles the index count is a
  multiple of 3. \<open>computeNormals\<close>, \<open>computeTangents\<close> and \<open>standardize\<close> change neither the
  index sequence nor the number of vertices, so they preserve both properties. The
  indices are \<open>GLuint\<close> values: the first part holds whatever the number of vertices,
  since a count converted to \<open>GLuint\<close> can only become smaller.
\<close>

theorem mesh_invariant:
  "(build_vertex_index reader m = Inr m1 \<longrightarrow>
      indices_in_range m1 \<and> (3 dvd length (corners reader) \<longrightarrow> 3 dvd length (m_indices m1)))
   \<and> (computeNormals F m = Inr m2 \<longrightarrow>
      m_indices m2 = m_indices m \<and> length (m_vertices m2) = length (m_vertices m))
   \<and> (computeTangents F m = Inr m3 \<longrightarrow>
      m_indices m3 = m_indices m \<and> length (m_vertices m3) = length (m_vertices m))
   \<and> m_indices (standardize F m) = m_indices m
   \<and> length (m_vertices (standardize F m)) = length (m_vertices m)"
proof (intro conjI impI)
  assume b: "build_vertex_index reader m = Inr m1"
  show "indices_in_range m1" by (rule build_indices_in_range(1) [OF b])
  assume "3 dvd length (corners reader)"
  then show "3 dvd length (m_indices m1)" by (simp add: build_indices_in_range(2) [OF b])
next
  assume "computeNormals F m = Inr m2"
  from computeNormals_frame [OF this]
  show "m_indices m2 = m_indices m" and "length (m_vertices m2) = length (m_vertices m)" by auto
next
  assume "computeTangents F m = Inr m3"
  from computeTangents_frame [OF this]
  show "m_indices m3 = m_indices m" and "length (m_vertices m3) = length (m_vertices m)" by auto
next
  from standardize_frame [of m F]
  show "m_indices (standardize F m) = m_indices m"
    and "length (m_vertices (standardize F m)) = length (m_vertices m)" by auto
qed

theorem mesh_invariant_witness:
  "build_vertex_index quad_reader blank_model =
     Inr ((quad_mesh (Vec3 0 0 0) (\<lambda>i. Vec4 0 0 0 0))\<lparr>m_hasTexCoords := True\<rparr>)
   \<and> indices_in_range ((quad_mesh (Vec3 0 0 0) (\<lambda>i. Vec4 0 0 0 0))\<lparr>m_hasTexCoords := True\<rparr>)
   \<and> 3 dvd length (corners quad_reader)
   \<and> length (m_indices ((quad_mesh (Vec3 0 0 0) (\<lambda>i. Vec4 0 0 0 0))\<lparr>m_hasTexCoords := True\<rparr>)) = 6
   \<and> computeNormals real_env ((quad_mesh (Vec3 0 0 0) (\<lambda>i. Vec4 0 0 0 0))\<lparr>m_hasTexCoords := True\<rparr>) =
       Inr ((quad_mesh (Vec3 0 0 1) (\<lambda>i. Vec4 0 0 0 0))\<lparr>m_hasTexCoords := True, m_hasNormals := True\<rparr>)
   \<and> m_indices ((quad_mesh (Vec3 0 0 1) (\<lambda>i. Vec4 0 0 0 0))\<lparr>m_hasTexCoords := True, m_hasNormals := True\<rparr>) =
       [0, 1, 2, 0, 2, 3]
   \<and> computeTangents real_env
        ((quad_mesh (Vec3 0 0 1) (\<lambda>i. Vec4 0 0 0 0))\<lparr>m_hasTexCoords := True, m_hasNormals := True\<rparr>) =
       Inr ((quad_mesh (Vec3 0 0 1) (\<lambda>i. Vec4 1 0 0 1))\<lparr>m_hasTexCoords := True, m_hasNormals := True\<rparr>)
   \<and> length (m_vertices
        ((quad_mesh (Vec3 0 0 1) (\<lambda>i. Vec4 1 0 0 1))\<lparr>m_hasTexCoords := True, m_hasNormals := True\<rparr>)) = 4"
proof -
  let ?built = "(quad_mesh (Vec3 0 0 0) (\<lambda>i. Vec4 0 0 0 0))\<lparr>m_hasTexCoords := True\<rparr>"
  let ?normals = "(quad_mesh (Vec3 0 0 1) (\<lambda>i. Vec4 0 0 0 0))\<lparr>m_hasTexCoords := True, m_hasNormals := True\<rparr>"
  let ?tangents = "(quad_mesh (Vec3 0 0 1) (\<lambda>i. Vec4 1 0 0 1))\<lparr>m_hasTexCoords := True, m_hasNormals := True\<rparr>"
  have "length (corners quad_reader) = 6"
    by (simp add: corners_def quad_reader_def)
  then have tri: "3 dvd length (corners quad_reader)"
    by simp
  have len: "length (m_indices ?built) = 6" "length (m_vertices ?built) = 4"
    by (simp_all add: quad_mesh_def)
  from mesh_invariant [of quad_reader blank_model ?built real_env ?built ?built]
  have "indices_in_range ?built"
    using quad_build by simp
  moreover from mesh_invariant [of quad_reader ?built ?built real_env ?normals ?built]
  have "m_indices ?normals = m_indices ?built"
    using quad_normals by simp
  moreover from mesh_invariant [of quad_reader ?normals ?built real_env ?normals ?tangents]
  have "length (m_vertices ?tangents) = length (m_vertices ?normals)"
    using quad_tangents by simp
  ultimately show ?thesis
    using quad_build quad_normals quad_tangents tri len
    by (simp add: quad_mesh_def)
qed

section \<open>The has-normals flag\<close>

text \<open>
  Claim C10. \<open>computeNormals\<close> sets the has-normals flag whenever it completes, so the flag
  is set after every load that completes: either a corner supplied a normal, or
  \<open>computeNormals\<close> ran.
\<close>

theorem computeNormals_sets_hasNormals:
  "(computeNormals F m = Inr m1 \<longrightarrow> m_hasNormals m1) \<and>
   (loadFromFile F W path flag m = Inr m2 \<longrightarrow> m_hasNormals m2)"
proof (intro conjI impI)
  assume "computeNormals F m = Inr m1"
  from computeNormals_frame [OF this] show "m_hasNormals m1" by auto
next
  assume "loadFromFile F W path flag m = Inr m2"
  then show "m_hasNormals m2" by (rule loadFromFile_frame) simp
qed

theorem computeNormals_sets_hasNormals_witness:
  "\<not> supplies_normal (corners quad_reader)
   \<and> computeNormals real_env ((quad_mesh (Vec3 0 0 0) (\<lambda>i. Vec4 0 0 0 0))\<lparr>m_hasTexCoords := True\<rparr>) =
       Inr ((quad_mesh (Vec3 0 0 1) (\<lambda>i. Vec4 0 0 0 0))\<lparr>m_hasTexCoords := True, m_hasNormals := True\<rparr>)
   \<and> m_hasNormals ((quad_mesh (Vec3 0 0 1) (\<lambda>i. Vec4 0 0 0 0))\<lparr>m_hasTexCoords := True, m_hasNormals := True\<rparr>)
   \<and> loadFromFile real_env quad_world ''models/quad.obj'' False blank_model = Inr quad_loaded
   \<and> m_hasNormals quad_loaded"
proof -
  have "\<not> supplies_normal (corners quad_reader)"
    by (simp add: supplies_normal_def corners_def quad_reader_def corner_def)
  moreover from computeNormals_sets_hasNormals
    [of real_env "(quad_mesh (Vec3 0 0 0) (\<lambda>i. Vec4 0 0 0 0))\<lparr>m_hasTexCoords := True\<rparr>"
       "(quad_mesh (Vec3 0 0 1) (\<lambda>i. Vec4 0 0 0 0))\<lparr>m_hasTexCoords := True, m_hasNormals := True\<rparr>"
       quad_world "''models/quad.obj''" False quad_loaded]
  have "m_hasNormals ((quad_mesh (Vec3 0 0 1) (\<lambda>i. Vec4 0 0 0 0))\<lparr>m_hasTexCoords := True, m_hasNormals := True\<rparr>)"
    using quad_normals by blast
  moreover from computeNormals_sets_hasNormals
    [of real_env blank_model _ quad_world "''models/quad.obj''" False quad_loaded]
  have "m_hasNormals quad_loaded"
    using quad_load by blast
  ultimately show ?thesis
    using quad_normals quad_load by blast
qed

section \<open>Material resolution\<close>

text \<open>
  Claim C8. When the parsed material list is empty, a load that completes leaves ambient
  \<open>(0.1, 0.1, 0.1, 1)\<close>, diffuse \<open>(0.7, 0.7, 0.7, 1)\<close>, specular \<open>(1, 1, 1, 1)\<close> and shininess
  \<open>25\<close> (the floats these literals denote); when it is not empty, it leaves the colours
  and the shininess of the first material, with alpha \<open>1\<close>.
\<close>

theorem material_resolution:
  "(loadFromFile F W path flag m = Inr m' \<and>
      reader_materials (ParseFromFile W path (parent_path W path @ ''/'')) = [] \<longrightarrow>
      m_Ka m' = Vec4 (float_lit F 0.1) (float_lit F 0.1) (float_lit F 0.1) 1 \<and>
      m_Kd m' = Vec4 (float_lit F 0.7) (float_lit F 0.7) (float_lit F 0.7) 1 \<and>
      m_Ks m' = Vec4 1 1 1 1 \<and>
      m_shininess m' = float_lit F 25) \<and>
   (loadFromFile F W path flag m = Inr m' \<and>
      reader_materials (ParseFromFile W path (parent_path W path @ ''/'')) = mat # rest \<longrightarrow>
      m_Ka m' = vec4_of (ambient mat) 1 \<and>
      m_Kd m' = vec4_of (diffuse mat) 1 \<and>
      m_Ks m' = vec4_of (specular mat) 1 \<and>
      m_shininess m' = shininess mat)"
proof (intro conjI impI; elim conjE)
  assume load: "loadFromFile F W path flag m = Inr m'"
    and none: "reader_materials (ParseFromFile W path (parent_path W path @ ''/'')) = []"
  from load obtain m1 m2 vs where
    r: "resolve_material F W (parent_path W path @ ''/'')
          (reader_materials (ParseFromFile W path (parent_path W path @ ''/''))) m1 = Inr m2"
    and m': "m' = m2\<lparr>m_vertices := vs, m_hasNormals := True,
                     m_VBO := glGenBuffer_VBO W, m_EBO := glGenBuffer_EBO W\<rparr>"
    by (rule loadFromFile_frame)
  from r none have "m2 = m1\<lparr>m_Ka := Vec4 (float_lit F 0.1) (float_lit F 0.1) (float_lit F 0.1) 1,
            m_Kd := Vec4 (float_lit F 0.7) (float_lit F 0.7) (float_lit F 0.7) 1,
            m_Ks := Vec4 1 1 1 1, m_shininess := float_lit F 25\<rparr>"
    by (simp add: resolve_material_Nil)
  with m' show "m_Ka m' = Vec4 (float_lit F 0.1) (float_lit F 0.1) (float_lit F 0.1) 1"
    and "m_Kd m' = Vec4 (float_lit F 0.7) (float_lit F 0.7) (float_lit F 0.7) 1"
    and "m_Ks m' = Vec4 1 1 1 1" and "m_shininess m' = float_lit F 25"
    by simp_all
next
  assume load: "loadFromFile F W path flag m = Inr m'"
    and first: "reader_materials (ParseFromFile W path (parent_path W path @ ''/'')) = mat # rest"
  from load obtain m1 m2 vs where
    r: "resolve_material F W (parent_path W path @ ''/'')
          (reader_materials (ParseFromFile W path (parent_path W path @ ''/''))) m1 = Inr m2"
    and m': "m' = m2\<lparr>m_vertices := vs, m_hasNormals := True,
                     m_VBO := glGenBuffer_VBO W, m_EBO := glGenBuffer_EBO W\<rparr>"
    by (rule loadFromFile_frame)
  from r first have "resolve_material F W (parent_path W path @ ''/'') (mat # rest) m1 = Inr m2"
    by simp
  from resolve_material_Cons [OF this] obtain dt nt where
    "m2 = m1\<lparr>m_Ka := vec4_of (ambient mat) 1, m_Kd := vec4_of (diffuse mat) 1,
             m_Ks := vec4_of (specular mat) 1, m_shininess := shininess mat,
             m_diffuseTexture := dt, m_normalTexture := nt\<rparr>"
    by blast
  with m' show "m_Ka m' = vec4_of (ambient mat) 1" and "m_Kd m' = vec4_of (diffuse mat) 1"
    and "m_Ks m' = vec4_of (specular mat) 1" and "m_shininess m' = shininess mat"
    by simp_all
qed

theorem material_resolution_witness:
  "loadFromFile real_env bare_quad_world ''models/quad.obj'' False blank_model =
     Inr (quad_loaded\<lparr>m_Ka := Vec4 0.1 0.1 0.1 1, m_Kd := Vec4 0.7 0.7 0.7 1,
                      m_Ks := Vec4 1 1 1 1, m_shininess := 25\<rparr>)
   \<and> reader_materials (ParseFromFile bare_quad_world ''models/quad.obj''
        (parent_path bare_quad_world ''models/quad.obj'' @ ''/'')) = []
   \<and> m_Ka (quad_loaded\<lparr>m_Ka := Vec4 0.1 0.1 0.1 1, m_Kd := Vec4 0.7 0.7 0.7 1,
                      m_Ks := Vec4 1 1 1 1, m_shininess := 25\<rparr>) = Vec4 0.1 0.1 0.1 1
   \<and> loadFromFile real_env quad_world ''models/quad.obj'' False blank_model = Inr quad_loaded
   \<and> reader_materials (ParseFromFile quad_world ''models/quad.obj''
        (parent_path quad_world ''models/quad.obj'' @ ''/'')) = reader_materials quad_reader
   \<and> m_Ka quad_loaded = Vec4 0.2 0.2 0.2 1
   \<and> m_Kd quad_loaded = Vec4 0.8 0.8 0.8 1
   \<and> m_Ks quad_loaded = Vec4 0.5 0.5 0.5 1
   \<and> m_shininess quad_loaded = 10"
proof -
  have mats: "reader_materials (ParseFromFile quad_world ''models/quad.obj''
        (parent_path quad_world ''models/quad.obj'' @ ''/'')) = [quad_material]"
    by (simp add: quad_world_def quad_reader_def)
  have none: "reader_materials (ParseFromFile bare_quad_world ''models/quad.obj''
        (parent_path bare_quad_world ''models/quad.obj'' @ ''/'')) = []"
    by (simp add: bare_quad_world_def quad_world_def)
  from material_resolution [of real_env quad_world "''models/quad.obj''" False blank_model
      quad_loaded quad_material "[]"] quad_load mats
  have "m_Ka quad_loaded = Vec4 0.2 0.2 0.2 1 \<and> m_Kd quad_loaded = Vec4 0.8 0.8 0.8 1 \<and>
        m_Ks quad_loaded = Vec4 0.5 0.5 0.5 1 \<and> m_shininess quad_loaded = 10"
    by (simp add: vec4_of_def quad_material_def)
  moreover
  from material_resolution [of real_env bare_quad_world "''models/quad.obj''" False blank_model
      "quad_loaded\<lparr>m_Ka := Vec4 0.1 0.1 0.1 1, m_Kd := Vec4 0.7 0.7 0.7 1,
                      m_Ks := Vec4 1 1 1 1, m_shininess := 25\<rparr>"] bare_quad_load none
  have "m_Ka (quad_loaded\<lparr>m_Ka := Vec4 0.1 0.1 0.1 1, m_Kd := Vec4 0.7 0.7 0.7 1,
                      m_Ks := Vec4 1 1 1 1, m_shininess := 25\<rparr>) = Vec4 0.1 0.1 0.1 1"
    by (simp add: real_env_def)
  ultimately show ?thesis
    using quad_load bare_quad_load none
    by (simp add: quad_world_def)
qed

section \<open>The build and the material step of a load\<close>

lemma build_vertex_index_frame:
  assumes "build_vertex_index reader m = Inr m1"
  shows "\<exists>vs is. m1 = m\<lparr>m_vertices := vs, m_indices := is,
                          m_hasNormals := supplies_normal (corners reader),
                          m_hasTexCoords := supplies_texcoord (corners reader)\<rparr>"
  using assms by (auto simp: build_vertex_index_eq and_then_Inr_iff)





section \<open>The order of the steps of a load\<close>

lemma normals_tangents_steps:
  assumes "m_hasNormals m3 = sn" and "m_hasTexCoords m3 = st"
  shows "and_then (if \<not> m_hasNormals m3 then computeNormals F m3 else Inr m3) (\<lambda>m4.
           and_then (if m_hasTexCoords m4 then computeTangents F m4 else Inr m4) k) =
         and_then (if \<not> sn then computeNormals F m3 else Inr m3) (\<lambda>m4.
           and_then (if st then computeTangents F m4 else Inr m4) k)"
proof (cases "if \<not> m_hasNormals m3 then computeNormals F m3 else Inr m3")
  case (Inl e)
  with assms show ?thesis by simp
next
  case n: (Inr m4)
  from normals_step_frame [OF n] assms have "m_hasTexCoords m4 = st" by auto
  with assms n show ?thesis by simp
qed

text \<open>
  Claim C7. Within one load the steps run in the order build, material, standardize,
  normals, tangents (and then the buffers): a load after a successful parse is the
  composition below, in which a step that raises ends the load. \<open>standardize\<close> runs iff the
  caller's flag is set, \<open>computeNormals\<close> iff no corner supplied a normal, and
  \<open>computeTangents\<close> iff some corner supplied a texture coordinate, whether the normals
  were loaded or computed.
\<close>

theorem load_orchestration:
  assumes "reader = ParseFromFile W path (parent_path W path @ ''/'')"
    and "parse_ok reader"
  shows "loadFromFile F W path flag m =
     and_then (build_vertex_index reader m) (\<lambda>m1.
     and_then (resolve_material F W (parent_path W path @ ''/'') (reader_materials reader) m1) (\<lambda>m2.
     and_then (Inr (if flag then standardize F m2 else m2)) (\<lambda>m3.
     and_then (if \<not> supplies_normal (corners reader) then computeNormals F m3 else Inr m3) (\<lambda>m4.
     and_then (if supplies_texcoord (corners reader) then computeTangents F m4 else Inr m4) (\<lambda>m5.
       Inr (createBuffers W m5))))))"
proof (cases "build_vertex_index reader m")
  case (Inl e)
  with assms show ?thesis by (simp add: loadFromFile_def)
next
  case b: (Inr m1)
  from build_vertex_index_frame [OF b] have f1:
    "m_hasNormals m1 = supplies_normal (corners reader)"
    "m_hasTexCoords m1 = supplies_texcoord (corners reader)"
    by auto
  show ?thesis
  proof (cases "resolve_material F W (parent_path W path @ ''/'') (reader_materials reader) m1")
    case (Inl e)
    with assms b show ?thesis by (simp add: loadFromFile_def)
  next
    case r: (Inr m2)
    define m3 where "m3 = (if flag then standardize F m2 else m2)"
    from standardize_step_frame [of m2 flag F] resolve_material_mesh(3,4) [OF r] f1 have f3:
      "m_hasNormals m3 = supplies_normal (corners reader)"
      "m_hasTexCoords m3 = supplies_texcoord (corners reader)"
      unfolding m3_def by auto
    have "loadFromFile F W path flag m =
        and_then (if \<not> m_hasNormals m3 then computeNormals F m3 else Inr m3) (\<lambda>m4.
          and_then (if m_hasTexCoords m4 then computeTangents F m4 else Inr m4) (\<lambda>m5.
            Inr (createBuffers W m5)))"
      using assms b r
      by (simp add: loadFromFile_def m3_def [symmetric] split del: if_split cong: if_cong)
    also have "\<dots> =
        and_then (if \<not> supplies_normal (corners reader) then computeNormals F m3 else Inr m3) (\<lambda>m4.
          and_then (if supplies_texcoord (corners reader) then computeTangents F m4 else Inr m4) (\<lambda>m5.
            Inr (createBuffers W m5)))"
      by (rule normals_tangents_steps [OF f3])
    finally show ?thesis
      using b r by (simp add: m3_def [symmetric] split del: if_split cong: if_cong)
  qed
qed

theorem load_orchestration_witness:
  "quad_reader = ParseFromFile quad_world ''models/quad.obj''
      (parent_path quad_world ''models/quad.obj'' @ ''/'')
   \<and> parse_ok quad_reader
   \<and> \<not> supplies_normal (corners quad_reader)
   \<and> supplies_texcoord (corners quad_reader)
   \<and> loadFromFile real_env quad_world ''models/quad.obj'' False blank_model =
       and_then (build_vertex_index quad_reader blank_model) (\<lambda>m1.
       and_then (resolve_material real_env quad_world ''models/'' [quad_material] m1) (\<lambda>m2.
       and_then (computeNormals real_env m2) (\<lambda>m4.
       and_then (computeTangents real_env m4) (\<lambda>m5.
         Inr (createBuffers quad_world m5)))))
   \<and> loadFromFile real_env quad_world ''models/quad.obj'' False blank_model = Inr quad_loaded"
proof -
  have reader: "quad_reader = ParseFromFile quad_world ''models/quad.obj''
      (parent_path quad_world ''models/quad.obj'' @ ''/'')"
    by (simp add: quad_world_def)
  have ok: "parse_ok quad_reader"
    by (simp add: quad_reader_def)
  have flags: "\<not> supplies_normal (corners quad_reader)" "supplies_texcoord (corners quad_reader)"
    by (simp_all add: supplies_normal_def supplies_texcoord_def corners_def quad_reader_def corner_def)
  have bp: "parent_path quad_world ''models/quad.obj'' @ ''/'' = ''models/''"
    by (simp add: quad_world_def)
  have mats: "reader_materials quad_reader = [quad_material]"
    by (simp add: quad_reader_def)
  from load_orchestration [OF reader ok, of real_env False blank_model] flags
  have "loadFromFile real_env quad_world ''models/quad.obj'' False blank_model =
       and_then (build_vertex_index quad_reader blank_model) (\<lambda>m1.
       and_then (resolve_material real_env quad_world ''models/'' [quad_material] m1) (\<lambda>m2.
       and_then (computeNormals real_env m2) (\<lambda>m4.
       and_then (computeTangents real_env m4) (\<lambda>m5.
         Inr (createBuffers quad_world m5)))))"
    by (simp only: bp mats if_True if_False not_False_eq_True and_then_Inr)
  with reader ok flags quad_load show ?thesis by blast
qed

section \<open>Determinism of the build\<close>

lemma and_then_related:
  assumes "map_sum id p r = map_sum id p r'"
    and "\<And>x x'. r = Inr x \<Longrightarrow> r' = Inr x' \<Longrightarrow> p x = p x' \<Longrightarrow>
           map_sum id q (f x) = map_sum id q (f' x')"
  shows "map_sum id q (and_then r f) = map_sum id q (and_then r' f')"
  using assms by (cases r; cases r') simp_all

lemma build_mesh_part:
  assumes "corners reader = corners reader'" and "reader_attrib reader = reader_attrib reader'"
  shows "map_sum id mesh_part (build_vertex_index reader m) =
         map_sum id mesh_part (build_vertex_index reader' m')"
  using assms
  by (cases "assemble_all (reader_attrib reader') (corners reader')")
     (simp_all add: build_vertex_index_eq mesh_part_def)

lemma loadDiffuseTexture_mesh_part:
  "mesh_part m = mesh_part m' \<Longrightarrow>
     map_sum id mesh_part (loadDiffuseTexture W p m) = map_sum id mesh_part (loadDiffuseTexture W p m')"
  by (cases "loadTexture W p") (simp_all add: loadDiffuseTexture_def mesh_part_def)

lemma loadNormalTexture_mesh_part:
  "mesh_part m = mesh_part m' \<Longrightarrow>
     map_sum id mesh_part (loadNormalTexture W p m) = map_sum id mesh_part (loadNormalTexture W p m')"
  by (cases "loadTexture W p") (simp_all add: loadNormalTexture_def mesh_part_def)

lemma resolve_material_mesh_part:
  assumes "mesh_part m = mesh_part m'"
  shows "map_sum id mesh_part (resolve_material F W bp mats m) =
         map_sum id mesh_part (resolve_material F W bp mats m')"
proof (cases mats)
  case Nil
  with assms show ?thesis by (simp add: resolve_material_Nil mesh_part_def)
next
  case (Cons mat rest)
  let ?u = "\<lambda>m. m\<lparr>m_Ka := vec4_of (ambient mat) 1, m_Kd := vec4_of (diffuse mat) 1,
                    m_Ks := vec4_of (specular mat) 1, m_shininess := shininess mat\<rparr>"
  have u: "mesh_part (?u m) = mesh_part (?u m')"
    using assms by (simp add: mesh_part_def)
  have d: "map_sum id mesh_part
             (if diffuse_texname mat \<noteq> [] then loadDiffuseTexture W (bp @ diffuse_texname mat) (?u m)
              else Inr (?u m)) =
           map_sum id mesh_part
             (if diffuse_texname mat \<noteq> [] then loadDiffuseTexture W (bp @ diffuse_texname mat) (?u m')
              else Inr (?u m'))"
    using u loadDiffuseTexture_mesh_part [OF u, of W "bp @ diffuse_texname mat"] by simp
  have n: "map_sum id mesh_part
             (if normal_texname mat \<noteq> [] then loadNormalTexture W (bp @ normal_texname mat) x
              else if bump_texname mat \<noteq> [] then loadNormalTexture W (bp @ bump_texname mat) x
              else Inr x) =
           map_sum id mesh_part
             (if normal_texname mat \<noteq> [] then loadNormalTexture W (bp @ normal_texname mat) x'
              else if bump_texname mat \<noteq> [] then loadNormalTexture W (bp @ bump_texname mat) x'
              else Inr x')"
    if "mesh_part x = mesh_part x'" for x x'
    using that loadNormalTexture_mesh_part [OF that, of W "bp @ normal_texname mat"]
      loadNormalTexture_mesh_part [OF that, of W "bp @ bump_texname mat"] by simp
  show ?thesis
    unfolding Cons resolve_material_def list.case Let_def
    by (rule and_then_related [OF d]) (rule n)
qed

lemma standardize_mesh_part:
  "mesh_part m = mesh_part m' \<Longrightarrow> mesh_part (standardize F m) = mesh_part (standardize F m')"
  by (simp add: standardize_def mesh_part_def Let_def case_prod_beta)

lemma computeNormals_mesh_part:
  assumes "mesh_part m = mesh_part m'"
  shows "map_sum id mesh_part (computeNormals F m) = map_sum id mesh_part (computeNormals F m')"
proof -
  from assms have eq: "m_vertices m = m_vertices m'" "m_indices m = m_indices m'"
    "m_hasTexCoords m = m_hasTexCoords m'"
    by (simp_all add: mesh_part_def)
  show ?thesis
    unfolding computeNormals_def Let_def eq(1,2)
    by (rule and_then_related [where p = id]) (simp_all add: mesh_part_def eq)
qed

lemma computeTangents_mesh_part:
  assumes "mesh_part m = mesh_part m'"
  shows "map_sum id mesh_part (computeTangents F m) = map_sum id mesh_part (computeTangents F m')"
proof -
  from assms have eq: "m_vertices m = m_vertices m'" "m_indices m = m_indices m'"
    "m_hasTexCoords m = m_hasTexCoords m'" "m_hasNormals m = m_hasNormals m'"
    by (simp_all add: mesh_part_def)
  show ?thesis
    unfolding computeTangents_def computeTangents_faces_def Let_def eq(1,2)
    by (rule and_then_related [where p = id]) (auto simp: mesh_part_def eq)
qed

lemma tangents_step_mesh_part:
  assumes "mesh_part m = mesh_part m'"
  shows "map_sum id mesh_part
           (and_then (if m_hasTexCoords m then computeTangents F m else Inr m) (\<lambda>m.
              Inr (createBuffers W m))) =
         map_sum id mesh_part
           (and_then (if m_hasTexCoords m' then computeTangents F m' else Inr m') (\<lambda>m.
              Inr (createBuffers W m)))"
proof -
  from assms have "m_hasTexCoords m = m_hasTexCoords m'" by (simp add: mesh_part_def)
  then have t: "map_sum id mesh_part (if m_hasTexCoords m then computeTangents F m else Inr m) =
                map_sum id mesh_part (if m_hasTexCoords m' then computeTangents F m' else Inr m')"
    using assms computeTangents_mesh_part [OF assms, of F] by simp
  show ?thesis
    by (rule and_then_related [OF t]) (simp add: createBuffers_def mesh_part_def)
qed

lemma normals_step_mesh_part:
  assumes "mesh_part m = mesh_part m'"
  shows "map_sum id mesh_part
           (and_then (if \<not> m_hasNormals m then computeNormals F m else Inr m) (\<lambda>m.
            and_then (if m_hasTexCoords m then computeTangents F m else Inr m) (\<lambda>m.
              Inr (createBuffers W m)))) =
         map_sum id mesh_part
           (and_then (if \<not> m_hasNormals m' then computeNormals F m' else Inr m') (\<lambda>m.
            and_then (if m_hasTexCoords m then computeTangents F m else Inr m) (\<lambda>m.
              Inr (createBuffers W m))))"
proof -
  from assms have "m_hasNormals m = m_hasNormals m'" by (simp add: mesh_part_def)
  then have n: "map_sum id mesh_part (if \<not> m_hasNormals m then computeNormals F m else Inr m) =
                map_sum id mesh_part (if \<not> m_hasNormals m' then computeNormals F m' else Inr m')"
    using assms computeNormals_mesh_part [OF assms, of F] by simp
  show ?thesis
    by (rule and_then_related [OF n]) (rule tangents_step_mesh_part)
qed

lemma loadFromFile_mesh_part:
  "map_sum id mesh_part (loadFromFile F W path flag m) =
   map_sum id mesh_part (loadFromFile F W path flag m')"
proof (cases "parse_ok (ParseFromFile W path (parent_path W path @ ''/''))")
  case False
  then show ?thesis by (simp add: loadFromFile_def Let_def)
next
  case True
  let ?reader = "ParseFromFile W path (parent_path W path @ ''/'')"
  have L: "loadFromFile F W path flag x =
      and_then (build_vertex_index ?reader x) (\<lambda>m.
      and_then (resolve_material F W (parent_path W path @ ''/'') (reader_materials ?reader) m) (\<lambda>m.
      and_then (if \<not> m_hasNormals (if flag then standardize F m else m)
                then computeNormals F (if flag then standardize F m else m)
                else Inr (if flag then standardize F m else m)) (\<lambda>m.
      and_then (if m_hasTexCoords m then computeTangents F m else Inr m) (\<lambda>m.
        Inr (createBuffers W m)))))" for x
    unfolding loadFromFile_def Let_def using True
    by (simp only: not_True_eq_False if_False and_then_Inr)
  have std: "mesh_part (if flag then standardize F x else x) =
             mesh_part (if flag then standardize F x' else x')"
    if "mesh_part x = mesh_part x'" for x x' :: "'a model"
    using that standardize_mesh_part [OF that, of F] by simp
  show ?thesis
    unfolding L
    by (rule and_then_related [OF build_mesh_part [OF refl refl]],
        rule and_then_related [OF resolve_material_mesh_part], assumption,
        rule normals_step_mesh_part, rule std)
qed

lemma mesh_of_mesh_part:
  "map_sum id mesh_part r = map_sum id mesh_part r' \<Longrightarrow> mesh_of r = mesh_of r'"
  by (cases r; cases r') (simp_all add: mesh_of_def mesh_part_def)

text \<open>
  Claim C5. The vertex and index sequences that the build produces are a function of the
  input corner sequence alone: the unique assembled vertices in first-occurrence order,
  and for each corner the position of its vertex among them. The table \<open>hash\<close> does not
  occur in that function, and neither does the model the load started from: two runs on
  the same input, from whatever earlier states of the model, produce the same vertex and
  index sequences (or the same exception), for the build and for the whole load.
\<close>

theorem build_deterministic:
  "mesh_of (build_vertex_index reader m) =
     map_sum id (\<lambda>vs. (unique_vertices vs, map (index_in vs) vs))
       (assemble_all (reader_attrib reader) (corners reader))
   \<and> mesh_of (build_vertex_index reader m) = mesh_of (build_vertex_index reader m')
   \<and> mesh_of (loadFromFile F W path flag m) = mesh_of (loadFromFile F W path flag m')"
proof (intro conjI)
  show "mesh_of (build_vertex_index reader m) =
     map_sum id (\<lambda>vs. (unique_vertices vs, map (index_in vs) vs))
       (assemble_all (reader_attrib reader) (corners reader))"
    by (cases "assemble_all (reader_attrib reader) (corners reader)")
       (simp_all add: build_vertex_index_eq mesh_of_def)
  show "mesh_of (build_vertex_index reader m) = mesh_of (build_vertex_index reader m')"
    by (rule mesh_of_mesh_part) (rule build_mesh_part [OF refl refl])
  show "mesh_of (loadFromFile F W path flag m) = mesh_of (loadFromFile F W path flag m')"
    by (rule mesh_of_mesh_part) (rule loadFromFile_mesh_part)
qed

theorem build_deterministic_witness:
  "mesh_of (build_vertex_index quad_reader blank_model) =
     Inr ([quad_vertex 0 0 (Vec3 0 0 0) (Vec4 0 0 0 0), quad_vertex 1 0 (Vec3 0 0 0) (Vec4 0 0 0 0),
           quad_vertex 1 1 (Vec3 0 0 0) (Vec4 0 0 0 0), quad_vertex 0 1 (Vec3 0 0 0) (Vec4 0 0 0 0)],
          [0, 1, 2, 0, 2, 3])
   \<and> mesh_of (build_vertex_index quad_reader quad_loaded) =
       mesh_of (build_vertex_index quad_reader blank_model)
   \<and> mesh_of (loadFromFile real_env quad_world ''models/quad.obj'' False quad_loaded) =
       mesh_of (Inr quad_loaded)"
proof -
  have "mesh_of (build_vertex_index quad_reader blank_model) =
     Inr ([quad_vertex 0 0 (Vec3 0 0 0) (Vec4 0 0 0 0), quad_vertex 1 0 (Vec3 0 0 0) (Vec4 0 0 0 0),
           quad_vertex 1 1 (Vec3 0 0 0) (Vec4 0 0 0 0), quad_vertex 0 1 (Vec3 0 0 0) (Vec4 0 0 0 0)],
          [0, 1, 2, 0, 2, 3])"
    by (simp add: quad_build mesh_of_def quad_mesh_def)
  moreover note inst = build_deterministic
    [of quad_reader quad_loaded blank_model real_env quad_world "''models/quad.obj''" False]
  from inst have "mesh_of (build_vertex_index quad_reader quad_loaded) =
        mesh_of (build_vertex_index quad_reader blank_model)"
    by blast
  moreover from inst
  have "mesh_of (loadFromFile real_env quad_world ''models/quad.obj'' False quad_loaded) =
        mesh_of (loadFromFile real_env quad_world ''models/quad.obj'' False blank_model)"
    by blast
  then have "mesh_of (loadFromFile real_env quad_world ''models/quad.obj'' False quad_loaded) =
         mesh_of (Inr quad_loaded)"
    by (simp only: quad_load)
  ultimately show ?thesis by blast
qed

section \<open>Vertex deduplication\<close>

lemma unique_vertices_append:
  "\<exists>rest. unique_vertices (xs @ ys) = unique_vertices xs @ rest"
proof (induction ys rule: rev_induct)
  case Nil
  show ?case by simp
next
  case (snoc y ys)
  then obtain rest where "unique_vertices (xs @ ys) = unique_vertices xs @ rest" by blast
  then have "unique_vertices (xs @ ys @ [y]) = unique_vertices xs @ rest \<or>
             unique_vertices (xs @ ys @ [y]) = unique_vertices xs @ (rest @ [y])"
    using unique_vertices_snoc [of "xs @ ys" y] by (simp split: if_splits)
  then show ?case by blast
qed

lemma set_unique_vertices: "set (unique_vertices vs) \<subseteq> set vs"
  by (auto simp: unique_vertices_def)

lemma unique_vertices_distinct_keys:
  "distinct (map vertex_key vs) \<Longrightarrow> unique_vertices vs = vs"
  by (induction vs rule: rev_induct) (auto simp: unique_vertices_snoc)

lemma index_of_first_seen:
  assumes "j < length vs" and "first_seen vs j"
  shows "index_of (vertex_key (vs ! j)) (map vertex_key (unique_vertices vs)) =
         length (unique_vertices (take j vs))"
    and "unique_vertices (take (Suc j) vs) = unique_vertices (take j vs) @ [vs ! j]"
proof -
  from assms(2) have new: "vertex_key (vs ! j) \<notin> vertex_key ` set (take j vs)"
    by (simp add: first_seen_def)
  show step: "unique_vertices (take (Suc j) vs) = unique_vertices (take j vs) @ [vs ! j]"
    using new assms(1) by (simp add: take_Suc_conv_app_nth unique_vertices_snoc)
  have "vs = take (Suc j) vs @ drop (Suc j) vs" by simp
  with unique_vertices_append [of "take (Suc j) vs" "drop (Suc j) vs"]
  obtain rest where "unique_vertices vs = unique_vertices (take (Suc j) vs) @ rest" by auto
  then have u: "unique_vertices vs = unique_vertices (take j vs) @ (vs ! j # rest)"
    by (simp add: step)
  have "vertex_key (vs ! j) \<notin> set (map vertex_key (unique_vertices (take j vs)))"
    using new keys_unique_vertices [of "take j vs"] by simp
  then show "index_of (vertex_key (vs ! j)) (map vertex_key (unique_vertices vs)) =
         length (unique_vertices (take j vs))"
    by (simp add: u index_of_append_notin)
qed

lemma unique_vertices_not_first_seen:
  assumes "j < length vs" and "\<not> first_seen vs j"
  shows "unique_vertices (take (Suc j) vs) = unique_vertices (take j vs)"
  using assms by (simp add: first_seen_def take_Suc_conv_app_nth unique_vertices_snoc)

lemma unat_index_in:
  assumes "v \<in> set vs" and "length (unique_vertices vs) \<le> 2 ^ 32"
  shows "unat (index_in vs v) = index_of (vertex_key v) (map vertex_key (unique_vertices vs))"
proof -
  have "vertex_key v \<in> set (map vertex_key (unique_vertices vs))"
    using assms(1) keys_unique_vertices [of vs] by auto
  then have "index_of (vertex_key v) (map vertex_key (unique_vertices vs)) < length (unique_vertices vs)"
    using index_of_less by fastforce
  with assms(2) have "index_of (vertex_key v) (map vertex_key (unique_vertices vs)) < 2 ^ 32"
    by simp
  then show ?thesis
    by (simp add: index_in_def unat_of_nat)
qed

lemma key_nth_index_in:
  assumes "v \<in> set vs" and "length (unique_vertices vs) \<le> 2 ^ 32"
  shows "vertex_key (unique_vertices vs ! unat (index_in vs v)) = vertex_key v"
proof -
  have in_keys: "vertex_key v \<in> set (map vertex_key (unique_vertices vs))"
    using assms(1) keys_unique_vertices [of vs] by auto
  then have "index_of (vertex_key v) (map vertex_key (unique_vertices vs)) < length (unique_vertices vs)"
    using index_of_less by fastforce
  then have "vertex_key (unique_vertices vs ! index_of (vertex_key v) (map vertex_key (unique_vertices vs))) =
        map vertex_key (unique_vertices vs) ! index_of (vertex_key v) (map vertex_key (unique_vertices vs))"
    by simp
  with nth_index_of [OF in_keys] show ?thesis
    by (simp add: unat_index_in [OF assms])
qed

lemma index_in_eq_iff:
  assumes "v \<in> set vs" and "w \<in> set vs" and "length (unique_vertices vs) \<le> 2 ^ 32"
  shows "index_in vs v = index_in vs w \<longleftrightarrow> vertex_key v = vertex_key w"
proof
  assume "index_in vs v = index_in vs w"
  then have "vertex_key (unique_vertices vs ! unat (index_in vs v)) =
             vertex_key (unique_vertices vs ! unat (index_in vs w))" by simp
  with key_nth_index_in [OF assms(1,3)] key_nth_index_in [OF assms(2,3)]
  show "vertex_key v = vertex_key w"
    by simp
next
  assume "vertex_key v = vertex_key w"
  then show "index_in vs v = index_in vs w" by (simp add: index_in_def)
qed

lemma assemble_all_tangent:
  assumes "assemble_all attrib cs = Inr vs" and "v \<in> set vs"
  shows "tangent v = Vec4 0 0 0 0"
proof -
  from assms(2) obtain j where "j < length vs" "v = vs ! j" by (auto simp: in_set_conv_nth)
  with assemble_all_nth [OF assms(1)] show ?thesis
    by (auto dest: assemble_tangent)
qed

text \<open>
  Claim C1, as amended. When the load has at most \<open>2 ^ 32\<close> unique vertices: two corners
  are assigned the same index iff their assembled vertices are identical; the index of
  a corner leads to its vertex; a corner whose vertex was not seen before is assigned the
  number of unique vertices so far and its vertex is appended to them, and any other
  corner leaves them as they are; so the vertices of the model are the unique assembled
  vertices in first-occurrence order.
\<close>

theorem vertex_deduplication:
  assumes "build_vertex_index reader m = Inr m'"
    and "length (m_vertices m') \<le> 2 ^ 32"
  shows "\<exists>vs. assemble_all (reader_attrib reader) (corners reader) = Inr vs
     \<and> length (m_indices m') = length vs
     \<and> m_vertices m' = unique_vertices vs
     \<and> (\<forall>j<length vs. \<forall>k<length vs. (m_indices m' ! j = m_indices m' ! k) = (vs ! j = vs ! k))
     \<and> (\<forall>j<length vs. m_vertices m' ! unat (m_indices m' ! j) = vs ! j)
     \<and> (\<forall>j<length vs. first_seen vs j \<longrightarrow>
           unat (m_indices m' ! j) = length (unique_vertices (take j vs)) \<and>
           unique_vertices (take (Suc j) vs) = unique_vertices (take j vs) @ [vs ! j])
     \<and> (\<forall>j<length vs. \<not> first_seen vs j \<longrightarrow>
           unique_vertices (take (Suc j) vs) = unique_vertices (take j vs))"
proof -
  from assms(1) obtain vs where vs: "assemble_all (reader_attrib reader) (corners reader) = Inr vs"
    and m': "m' = m\<lparr>m_vertices := unique_vertices vs, m_indices := map (index_in vs) vs,
              m_hasNormals := supplies_normal (corners reader),
              m_hasTexCoords := supplies_texcoord (corners reader)\<rparr>"
    by (auto simp: build_vertex_index_eq and_then_Inr_iff)
  from assms(2) have small: "length (unique_vertices vs) \<le> 2 ^ 32"
    by (simp add: m')
  have tan: "tangent v = Vec4 0 0 0 0" if "v \<in> set vs" for v
    using assemble_all_tangent [OF vs that] .
  have same: "(m_indices m' ! j = m_indices m' ! k) = (vs ! j = vs ! k)"
    if "j < length vs" "k < length vs" for j k
  proof -
    have "(index_in vs (vs ! j) = index_in vs (vs ! k)) = (vertex_key (vs ! j) = vertex_key (vs ! k))"
      using that by (intro index_in_eq_iff small) simp_all
    also have "\<dots> = (vs ! j = vs ! k)"
      using that by (intro vertex_key_eq_iff) (simp add: tan)
    finally show ?thesis using that by (simp add: m')
  qed
  have leads: "m_vertices m' ! unat (m_indices m' ! j) = vs ! j" if "j < length vs" for j
  proof -
    let ?u = "unique_vertices vs ! unat (index_in vs (vs ! j))"
    have "unat (index_in vs (vs ! j)) < length (unique_vertices vs)"
      using that by (intro unat_index_in_less) simp
    then have "?u \<in> set (unique_vertices vs)"
      by (rule nth_mem)
    then have "?u \<in> set vs"
      using set_unique_vertices [of vs] by blast
    then have "tangent ?u = tangent (vs ! j)"
      using that by (simp add: tan)
    moreover have "vertex_key ?u = vertex_key (vs ! j)"
      using that by (intro key_nth_index_in small) simp
    ultimately have "?u = vs ! j"
      by (simp add: vertex_key_eq_iff)
    then show ?thesis using that by (simp add: m')
  qed
  have new: "unat (m_indices m' ! j) = length (unique_vertices (take j vs)) \<and>
             unique_vertices (take (Suc j) vs) = unique_vertices (take j vs) @ [vs ! j]"
    if "j < length vs" "first_seen vs j" for j
  proof -
    have "unat (index_in vs (vs ! j)) =
          index_of (vertex_key (vs ! j)) (map vertex_key (unique_vertices vs))"
      using that by (intro unat_index_in small) simp
    with index_of_first_seen [OF that] that show ?thesis by (simp add: m')
  qed
  have old: "unique_vertices (take (Suc j) vs) = unique_vertices (take j vs)"
    if "j < length vs" "\<not> first_seen vs j" for j
    using that by (rule unique_vertices_not_first_seen)
  from vs same leads new old show ?thesis
    by (intro exI [of _ vs]) (simp add: m')
qed

theorem vertex_deduplication_witness:
  "build_vertex_index quad_reader blank_model =
     Inr ((quad_mesh (Vec3 0 0 0) (\<lambda>i. Vec4 0 0 0 0))\<lparr>m_hasTexCoords := True\<rparr>)
   \<and> length (m_vertices ((quad_mesh (Vec3 0 0 0) (\<lambda>i. Vec4 0 0 0 0))\<lparr>m_hasTexCoords := True\<rparr>)) = 4
   \<and> m_indices ((quad_mesh (Vec3 0 0 0) (\<lambda>i. Vec4 0 0 0 0))\<lparr>m_hasTexCoords := True\<rparr>) =
       [0, 1, 2, 0, 2, 3]
   \<and> (\<exists>vs. assemble_all (reader_attrib quad_reader) (corners quad_reader) = Inr vs
         \<and> length vs = 6
         \<and> unique_vertices vs =
             [quad_vertex 0 0 (Vec3 0 0 0) (Vec4 0 0 0 0), quad_vertex 1 0 (Vec3 0 0 0) (Vec4 0 0 0 0),
              quad_vertex 1 1 (Vec3 0 0 0) (Vec4 0 0 0 0), quad_vertex 0 1 (Vec3 0 0 0) (Vec4 0 0 0 0)]
         \<and> vs ! 0 = vs ! 3 \<and> vs ! 2 = vs ! 4 \<and> vs ! 0 \<noteq> vs ! 1)"
proof -
  let ?built = "(quad_mesh (Vec3 0 0 0) (\<lambda>i. Vec4 0 0 0 0))\<lparr>m_hasTexCoords := True\<rparr>"
  have len: "length (m_vertices ?built) = 4" and idx: "m_indices ?built = [0, 1, 2, 0, 2, 3]"
    and vts: "m_vertices ?built =
       [quad_vertex 0 0 (Vec3 0 0 0) (Vec4 0 0 0 0), quad_vertex 1 0 (Vec3 0 0 0) (Vec4 0 0 0 0),
        quad_vertex 1 1 (Vec3 0 0 0) (Vec4 0 0 0 0), quad_vertex 0 1 (Vec3 0 0 0) (Vec4 0 0 0 0)]"
    by (simp_all add: quad_mesh_def)
  from len have small: "length (m_vertices ?built) \<le> 2 ^ 32" by simp
  from vertex_deduplication [OF quad_build small] obtain vs where
    vs: "assemble_all (reader_attrib quad_reader) (corners quad_reader) = Inr vs"
    and n: "length (m_indices ?built) = length vs"
    and u: "m_vertices ?built = unique_vertices vs"
    and same: "\<forall>j<length vs. \<forall>k<length vs.
                 (m_indices ?built ! j = m_indices ?built ! k) = (vs ! j = vs ! k)"
    by blast
  from n idx have l6: "length vs = 6" by simp
  from same l6 have "(m_indices ?built ! 0 = m_indices ?built ! 3) = (vs ! 0 = vs ! 3)"
    and "(m_indices ?built ! 2 = m_indices ?built ! 4) = (vs ! 2 = vs ! 4)"
    and "(m_indices ?built ! 0 = m_indices ?built ! 1) = (vs ! 0 = vs ! 1)"
    by simp_all
  then have "vs ! 0 = vs ! 3" "vs ! 2 = vs ! 4" "vs ! 0 \<noteq> vs ! 1"
    by (simp_all add: idx)
  with vs l6 u vts quad_build len idx show ?thesis
    by (intro conjI exI [of _ vs]) simp_all
qed


text \<open>The load with \<open>wide_count\<close> unique vertices, evaluated.\<close>

lemma wide_attrib_nth:
  assumes "k < 196611"
  shows "at_int (map real [0..<196611]) (int k) = Inr (real k)"
  using assms by (simp add: at_int_def at_nat_def del: upt_rec_numeral)

lemma wide_normals_nth:
  assumes "k < 196608"
  shows "at_int (map real [0..<196608]) (int k) = Inr (real k)"
  using assms by (simp add: at_int_def at_nat_def del: upt_rec_numeral)

lemma assemble_wide_corner:
  assumes "i < wide_count"
  shows "assemble (reader_attrib wide_reader) (wide_corner i) = Inr (wide_vertex i)"
proof -
  define a where "a = i div 65536"
  define b where "b = i mod 65536"
  have a: "a \<le> 65536" using assms by (simp add: a_def wide_count_def)
  have b: "b < 65536" by (simp add: b_def)
  have p: "at_int (map real [0..<196611]) (3 * int a + int k) = Inr (real (3 * a + k))"
    if "k < 3" for k
    using wide_attrib_nth [of "3 * a + k"] a that by simp
  have n: "at_int (map real [0..<196608]) (3 * int b + int k) = Inr (real (3 * b + k))"
    if "k < 3" for k
    using wide_normals_nth [of "3 * b + k"] b that by simp
  from p [of 0] p [of 1] p [of 2] n [of 0] n [of 1] n [of 2]
  show ?thesis
    by (simp add: assemble_def wide_corner_def corner_def wide_reader_def wide_vertex_def
          a_def [symmetric] b_def [symmetric] del: upt_rec_numeral)
qed

lemma corners_wide_reader: "corners wide_reader = map wide_corner [0..<wide_count]"
  by (simp add: corners_def wide_reader_def)

lemma assemble_all_wide:
  "assemble_all (reader_attrib wide_reader) (corners wide_reader) =
     Inr (map wide_vertex [0..<wide_count])"
  using assemble_all_Inr [of "corners wide_reader" "reader_attrib wide_reader" wide_vertex]
  by (simp add: corners_wide_reader assemble_wide_corner)

lemma wide_vertex_inj:
  assumes "vertex_key (wide_vertex i) = vertex_key (wide_vertex j)"
  shows "i = j"
proof -
  from assms have "real (3 * (i div 65536)) = real (3 * (j div 65536))"
    and "real (3 * (i mod 65536)) = real (3 * (j mod 65536))"
    by (simp_all add: vertex_key_def wide_vertex_def)
  then have "i div 65536 = j div 65536" and "i mod 65536 = j mod 65536"
    by simp_all
  then show ?thesis
    by (metis div_mult_mod_eq)
qed

lemma distinct_wide_keys: "distinct (map vertex_key (map wide_vertex [0..<n]))"
  unfolding map_map
  by (rule iffD2 [OF distinct_map]) (auto intro!: inj_onI dest: wide_vertex_inj)

lemma index_in_wide:
  assumes "j < n"
  shows "index_in (map wide_vertex [0..<n]) (wide_vertex j) = word_of_nat j"
proof -
  let ?vs = "map wide_vertex [0..<n]"
  have "index_of (map vertex_key ?vs ! j) (map vertex_key ?vs) = j"
    using assms by (intro index_of_nth_distinct distinct_wide_keys) simp
  then show ?thesis
    using assms by (simp add: index_in_def unique_vertices_distinct_keys [OF distinct_wide_keys])
qed

lemma wide_indices:
  "map (index_in (map wide_vertex [0..<n])) (map wide_vertex [0..<n]) = map word_of_nat [0..<n]"
  unfolding map_map
  by (rule map_cong) (simp_all add: index_in_wide)

lemma wide_flags: "supplies_normal (corners wide_reader)" "\<not> supplies_texcoord (corners wide_reader)"
proof -
  have "wide_corner 0 \<in> set (corners wide_reader)"
    by (simp add: corners_wide_reader wide_count_def)
  moreover have "0 \<le> normal_index (wide_corner 0)"
    by (simp add: wide_corner_def corner_def)
  ultimately show "supplies_normal (corners wide_reader)"
    unfolding supplies_normal_def by blast
  show "\<not> supplies_texcoord (corners wide_reader)"
    by (auto simp: supplies_texcoord_def corners_wide_reader wide_corner_def corner_def)
qed

lemma wide_build: "build_vertex_index wide_reader blank_model = Inr wide_built"
  by (simp add: build_vertex_index_eq assemble_all_wide wide_flags index_in_wide
        unique_vertices_distinct_keys [OF distinct_wide_keys] wide_built_def blank_model_def)

text \<open>
  Claim C1 as stated, without the bound, fails on a load with \<open>2 ^ 32 + 1\<close> unique
  vertices: the count \<open>2 ^ 32\<close> of unique vertices, converted to \<open>GLuint\<close>, is \<open>0\<close>, so the
  last corner is assigned the index of the first, and their vertices differ.
\<close>

theorem vertex_deduplication_counterexample:
  "build_vertex_index wide_reader blank_model = Inr wide_built
   \<and> length (corners wide_reader) = 4294967297
   \<and> assemble (reader_attrib wide_reader) (corners wide_reader ! 0) = Inr (wide_vertex 0)
   \<and> assemble (reader_attrib wide_reader) (corners wide_reader ! 4294967296) =
       Inr (wide_vertex 4294967296)
   \<and> wide_vertex 0 \<noteq> wide_vertex 4294967296
   \<and> m_indices wide_built ! 0 = m_indices wide_built ! 4294967296
   \<and> unat (m_indices wide_built ! 4294967296) = 0"
proof -
  have c0: "corners wide_reader ! 0 = wide_corner 0"
    and c1: "corners wide_reader ! 4294967296 = wide_corner 4294967296"
    and len: "length (corners wide_reader) = 4294967297"
    by (simp_all add: corners_wide_reader wide_count_def del: upt_rec_numeral)
  have i0: "m_indices wide_built ! 0 = 0"
    and i1: "m_indices wide_built ! 4294967296 = 0"
    by (simp_all add: wide_built_def wide_count_def del: upt_rec_numeral)
  have "wide_vertex 0 \<noteq> wide_vertex 4294967296"
    by (simp add: wide_vertex_def)
  with wide_build len i0 i1 show ?thesis
    by (simp add: c0 c1 assemble_wide_corner wide_count_def)
qed

section \<open>The loop over the faces\<close>

lemma range_stop_small: "n < 2 ^ 31 \<Longrightarrow> range_stop n = int n"
  by (simp add: range_stop_def signed_of_nat signed_take_bit_int_eq_self)

lemma drop_three:
  assumes "off + 2 < length xs"
  shows "drop off xs = xs ! off # xs ! (off + 1) # xs ! (off + 2) # drop (off + 3) xs"
proof -
  have "drop off xs = xs ! off # drop (Suc off) xs"
    using assms by (intro Cons_nth_drop_Suc [symmetric]) simp
  also have "drop (Suc off) xs = xs ! (off + 1) # drop (Suc (Suc off)) xs"
    using assms Cons_nth_drop_Suc [of "Suc off" xs] by simp
  also have "drop (Suc (Suc off)) xs = xs ! (off + 2) # drop (off + 3) xs"
    using assms Cons_nth_drop_Suc [of "Suc (Suc off)" xs] by (simp add: numeral_3_eq_3)
  finally show ?thesis .
qed

lemma triangles_short: "length xs < 3 \<Longrightarrow> triangles xs = []"
  by (cases xs rule: triangles.cases) simp_all

text \<open>
  The loop over the faces, for fewer than \<open>2 ^ 31\<close> indices: it raises unless the length
  is a multiple of 3 and every triplet passes the checks of the body, and otherwise
  folds the body's effect over the triplets.
\<close>

lemma for_range3_triangles:
  assumes body: "\<And>off s. good s \<Longrightarrow> body (int off) s =
            (if off + 2 < length xs \<and> valid (xs ! off, xs ! (off + 1), xs ! (off + 2))
             then Inr (step s (xs ! off, xs ! (off + 1), xs ! (off + 2))) else Inl OutOfRange)"
    and good: "\<And>s t. good s \<Longrightarrow> good (step s t)"
  shows "off \<le> length xs \<Longrightarrow> good s \<Longrightarrow>
     for_range3 (int off) (int (length xs)) body s =
       (if 3 dvd (length xs - off) \<and> list_all valid (triangles (drop off xs))
        then Inr (foldl step s (triangles (drop off xs))) else Inl OutOfRange)"
proof (induction "length xs - off" arbitrary: off s rule: less_induct)
  case less
  show ?case
  proof (cases "off < length xs")
    case False
    with less.prems have "off = length xs" by simp
    then show ?thesis by (simp add: for_range3.simps)
  next
    case True
    let ?t = "(xs ! off, xs ! (off + 1), xs ! (off + 2))"
    show ?thesis
    proof (cases "off + 2 < length xs")
      case False
      with True have "length xs - off = 1 \<or> length xs - off = 2" by arith
      then have "\<not> 3 dvd (length xs - off)" by auto
      with True False less.prems show ?thesis
        by (subst for_range3.simps) (simp add: body)
    next
      case long: True
      have d: "drop off xs = xs ! off # xs ! (off + 1) # xs ! (off + 2) # drop (off + 3) xs"
        by (rule drop_three [OF long])
      have dv: "3 dvd (length xs - off) \<longleftrightarrow> 3 dvd (length xs - (off + 3))"
      proof -
        from long have "length xs - off = (length xs - (off + 3)) + 3" by simp
        then show ?thesis by (metis dvd_add_triv_right_iff)
      qed
      show ?thesis
      proof (cases "valid ?t")
        case False
        with True long less.prems show ?thesis
          by (subst for_range3.simps) (simp add: body d)
      next
        case ok: True
        have "for_range3 (int off) (int (length xs)) body s =
                for_range3 (int (off + 3)) (int (length xs)) body (step s ?t)"
          using True long ok less.prems by (subst for_range3.simps) (simp add: body)
        also have "\<dots> =
           (if 3 dvd (length xs - (off + 3)) \<and> list_all valid (triangles (drop (off + 3) xs))
            then Inr (foldl step (step s ?t) (triangles (drop (off + 3) xs))) else Inl OutOfRange)"
          using long less.prems by (intro less.hyps good) simp_all
        finally show ?thesis
          using ok by (simp add: d dv)
      qed
    qed
  qed
qed

section \<open>Normal computation\<close>

lemma at_int_nat: "at_int xs (int k) = at_nat xs k"
  by (simp add: at_int_def)

lemma at_int_nat_add: "at_int xs (int k + 1) = at_nat xs (k + 1)" "at_int xs (int k + 2) = at_nat xs (k + 2)"
  using at_int_nat [of xs "k + 1"] at_int_nat [of xs "k + 2"] by (simp_all add: add.commute)

lemma computeNormals_face_eq:
  "computeNormals_face xs (int off) vs =
     (if off + 2 < length xs \<and> in_range (length vs) (xs ! off, xs ! (off + 1), xs ! (off + 2))
      then Inr (normals_step vs (xs ! off, xs ! (off + 1), xs ! (off + 2))) else Inl OutOfRange)"
  by (simp add: computeNormals_face_def at_int_nat at_int_nat_add at_nat_def in_range_def
        normals_step_def face_normal_def Let_def)

lemma length_normals_step [simp]: "length (normals_step vs t) = length vs"
  by (cases t) (simp add: normals_step_def)

lemma length_foldl_normals_step [simp]: "length (foldl normals_step vs ts) = length vs"
  by (induction ts arbitrary: vs) simp_all

lemma normals_step_nth:
  assumes "in_range (length vs) t" and "i < length vs"
  shows "normals_step vs t ! i =
           (vs ! i)\<lparr>normal := foldl vec3_add (normal (vs ! i))
                                (replicate (occurrences i t) (face_normal vs t))\<rparr>"
proof -
  obtain a b c where t: "t = (a, b, c)" by (cases t)
  show ?thesis
    using assms
    by (cases "unat a = i"; cases "unat b = i"; cases "unat c = i")
       (simp_all add: t normals_step_def add_normal_def occurrences_def in_range_def)
qed

lemma face_normal_cong:
  assumes "in_range (length vs) t" and "length ws = length vs"
    and "\<And>k. k < length vs \<Longrightarrow> position (ws ! k) = position (vs ! k)"
  shows "face_normal ws t = face_normal vs t"
  using assms by (cases t) (simp add: face_normal_def in_range_def)

lemma foldl_normals_step_nth:
  assumes "list_all (in_range (length vs)) ts" and "i < length vs"
  shows "foldl normals_step vs ts ! i =
           (vs ! i)\<lparr>normal := foldl vec3_add (normal (vs ! i))
              (concat (map (\<lambda>t. replicate (occurrences i t) (face_normal vs t)) ts))\<rparr>"
  using assms
proof (induction ts arbitrary: vs)
  case Nil
  show ?case by simp
next
  case (Cons t ts)
  let ?ws = "normals_step vs t"
  from Cons.prems have t: "in_range (length vs) t" and ts: "list_all (in_range (length vs)) ts"
    by simp_all
  have pos: "position (?ws ! k) = position (vs ! k)" if "k < length vs" for k
    using normals_step_nth [OF t that] by simp
  have same: "map (\<lambda>t'. replicate (occurrences i t') (face_normal ?ws t')) ts =
              map (\<lambda>t'. replicate (occurrences i t') (face_normal vs t')) ts"
  proof (rule map_cong [OF refl])
    fix t' assume "t' \<in> set ts"
    with ts have "in_range (length vs) t'" by (simp add: list_all_iff)
    then have "face_normal ?ws t' = face_normal vs t'"
      by (rule face_normal_cong) (simp_all add: pos)
    then show "replicate (occurrences i t') (face_normal ?ws t') =
               replicate (occurrences i t') (face_normal vs t')" by simp
  qed
  have "foldl normals_step vs (t # ts) ! i = foldl normals_step ?ws ts ! i" by simp
  also have "\<dots> = (?ws ! i)\<lparr>normal := foldl vec3_add (normal (?ws ! i))
              (concat (map (\<lambda>t. replicate (occurrences i t) (face_normal ?ws t)) ts))\<rparr>"
    using ts Cons.prems(2) by (intro Cons.IH) simp_all
  finally show ?case
    by (simp add: same normals_step_nth [OF t Cons.prems(2)])
qed

lemma three_dvd_small: "\<not> (3::nat) dvd Suc 0" "\<not> (3::nat) dvd Suc (Suc 0)"
proof -
  have "\<not> (3::nat) dvd 1" "\<not> (3::nat) dvd 2" by simp_all
  then show "\<not> (3::nat) dvd Suc 0" "\<not> (3::nat) dvd Suc (Suc 0)"
    by (simp_all add: numeral_2_eq_2)
qed

lemma set_triangles:
  "3 dvd length xs \<Longrightarrow> list_all (in_range n) (triangles xs) \<longleftrightarrow> (\<forall>j \<in> set xs. unat j < n)"
proof (induction xs rule: triangles.induct)
  case (1 a b c rest)
  have "length (a # b # c # rest) = length rest + 3" by simp
  with "1.prems" have "3 dvd length rest"
    by (metis dvd_add_triv_right_iff)
  with "1.IH" show ?case by (auto simp: in_range_def)
qed (simp_all add: three_dvd_small)

lemma contributions_unreferenced:
  assumes "i \<notin> unat ` set xs"
  shows "contributions f xs i = []"
proof -
  have "occurrences i t = 0" if "t \<in> set (triangles xs)" for t
  proof -
    obtain a b c where t: "t = (a, b, c)" by (cases t)
    have "\<And>a b c. (a, b, c) \<in> set (triangles xs) \<Longrightarrow> a \<in> set xs \<and> b \<in> set xs \<and> c \<in> set xs"
      by (induction xs rule: triangles.induct) auto
    with that t have "a \<in> set xs" "b \<in> set xs" "c \<in> set xs" by blast+
    with assms have "unat a \<noteq> i" "unat b \<noteq> i" "unat c \<noteq> i" by blast+
    then show ?thesis
      by (simp add: t occurrences_def)
  qed
  then show ?thesis
    by (simp add: contributions_def)
qed

lemma normals_loop_eq:
  assumes "length xs < 2 ^ 31"
  shows "for_range3 0 (range_stop (length xs)) (computeNormals_face xs) vs =
     (if 3 dvd length xs \<and> (\<forall>j \<in> set xs. unat j < length vs)
      then Inr (foldl normals_step vs (triangles xs)) else Inl OutOfRange)"
proof -
  have "for_range3 (int 0) (int (length xs)) (computeNormals_face xs) vs =
       (if 3 dvd (length xs - 0) \<and> list_all (in_range (length vs)) (triangles (drop 0 xs))
        then Inr (foldl normals_step vs (triangles (drop 0 xs))) else Inl OutOfRange)"
    by (rule for_range3_triangles [where good = "\<lambda>s. length s = length vs"])
       (simp_all add: computeNormals_face_eq)
  then show ?thesis
    using set_triangles [of xs "length vs"] by (auto simp: range_stop_small [OF assms])
qed

lemma normalized_accumulation:
  assumes "\<forall>j \<in> set xs. unat j < length vs" and "3 dvd length xs"
  shows "map (\<lambda>v. v\<lparr>normal := normalize F (normal v)\<rparr>)
           (foldl normals_step (map (\<lambda>v. v\<lparr>normal := vec3_zero\<rparr>) vs) (triangles xs)) =
         with_normals F vs xs"
proof (rule nth_equalityI)
  let ?vs0 = "map (\<lambda>v. v\<lparr>normal := vec3_zero\<rparr>) vs"
  show "length (map (\<lambda>v. v\<lparr>normal := normalize F (normal v)\<rparr>) (foldl normals_step ?vs0 (triangles xs))) =
        length (with_normals F vs xs)"
    by (simp add: with_normals_def)
  fix i
  assume "i < length (map (\<lambda>v. v\<lparr>normal := normalize F (normal v)\<rparr>) (foldl normals_step ?vs0 (triangles xs)))"
  then have i: "i < length vs" by simp
  from assms have valid: "list_all (in_range (length ?vs0)) (triangles xs)"
    by (simp add: set_triangles)
  have same: "map (\<lambda>t. replicate (occurrences i t) (face_normal ?vs0 t)) (triangles xs) =
              map (\<lambda>t. replicate (occurrences i t) (face_normal vs t)) (triangles xs)"
  proof (rule map_cong [OF refl])
    fix t assume "t \<in> set (triangles xs)"
    with valid have "in_range (length vs) t" by (simp add: list_all_iff)
    then have "face_normal ?vs0 t = face_normal vs t"
      by (rule face_normal_cong) simp_all
    then show "replicate (occurrences i t) (face_normal ?vs0 t) =
               replicate (occurrences i t) (face_normal vs t)" by simp
  qed
  have "foldl normals_step ?vs0 (triangles xs) ! i =
          (?vs0 ! i)\<lparr>normal := foldl vec3_add (normal (?vs0 ! i))
             (concat (map (\<lambda>t. replicate (occurrences i t) (face_normal ?vs0 t)) (triangles xs)))\<rparr>"
    using valid i by (intro foldl_normals_step_nth) simp_all
  then show "map (\<lambda>v. v\<lparr>normal := normalize F (normal v)\<rparr>) (foldl normals_step ?vs0 (triangles xs)) ! i =
             with_normals F vs xs ! i"
    using i by (simp add: same with_normals_def accumulated_normal_def contributions_def)
qed

text \<open>
  Claim C2, as amended. For a mesh with fewer than \<open>2 ^ 31\<close> indices, \<open>computeNormals\<close>
  raises unless the index count is a multiple of 3 and every index is in range, and
  otherwise gives every vertex the normalization of its accumulated normal: the sum,
  taken from zero and in the order of the consecutive index triplets \<open>(a, b, c)\<close>, of the
  cross product of \<open>b.position - a.position\<close> and \<open>c.position - b.position\<close>, once for each
  corner of the triplet that is the vertex. Positions, texture coordinates, tangents and
  indices are as before, and the has-normals flag is set. A vertex that no index refers
  to gets the normalization of the zero vector.
\<close>

theorem computeNormals_accumulates:
  assumes "length (m_indices m) < 2 ^ 31"
  shows "computeNormals F m =
     (if 3 dvd length (m_indices m) \<and> indices_in_range m
      then Inr (m\<lparr>m_vertices := with_normals F (m_vertices m) (m_indices m), m_hasNormals := True\<rparr>)
      else Inl OutOfRange)
   \<and> (\<forall>i<length (m_vertices m). i \<notin> unat ` set (m_indices m) \<longrightarrow>
        with_normals F (m_vertices m) (m_indices m) ! i =
          (m_vertices m ! i)\<lparr>normal := normalize F vec3_zero\<rparr>)"
proof (intro conjI allI impI)
  show "computeNormals F m =
     (if 3 dvd length (m_indices m) \<and> indices_in_range m
      then Inr (m\<lparr>m_vertices := with_normals F (m_vertices m) (m_indices m), m_hasNormals := True\<rparr>)
      else Inl OutOfRange)"
    by (simp add: computeNormals_def normals_loop_eq [OF assms] indices_in_range_def
          normalized_accumulation)
next
  fix i
  assume "i < length (m_vertices m)" and "i \<notin> unat ` set (m_indices m)"
  then show "with_normals F (m_vertices m) (m_indices m) ! i =
          (m_vertices m ! i)\<lparr>normal := normalize F vec3_zero\<rparr>"
    by (simp add: with_normals_def accumulated_normal_def contributions_unreferenced)
qed

theorem computeNormals_accumulates_witness:
  "length (m_indices ((quad_mesh (Vec3 0 0 0) (\<lambda>i. Vec4 0 0 0 0))\<lparr>m_hasTexCoords := True\<rparr>)) < 2 ^ 31
   \<and> computeNormals real_env ((quad_mesh (Vec3 0 0 0) (\<lambda>i. Vec4 0 0 0 0))\<lparr>m_hasTexCoords := True\<rparr>) =
       Inr ((quad_mesh (Vec3 0 0 1) (\<lambda>i. Vec4 0 0 0 0))\<lparr>m_hasTexCoords := True, m_hasNormals := True\<rparr>)
   \<and> with_normals real_env
        [quad_vertex 0 0 (Vec3 0 0 0) (Vec4 0 0 0 0), quad_vertex 1 0 (Vec3 0 0 0) (Vec4 0 0 0 0),
         quad_vertex 1 1 (Vec3 0 0 0) (Vec4 0 0 0 0), quad_vertex 0 1 (Vec3 0 0 0) (Vec4 0 0 0 0)]
        [0, 1, 2, 0, 2, 3] =
       [quad_vertex 0 0 (Vec3 0 0 1) (Vec4 0 0 0 0), quad_vertex 1 0 (Vec3 0 0 1) (Vec4 0 0 0 0),
        quad_vertex 1 1 (Vec3 0 0 1) (Vec4 0 0 0 0), quad_vertex 0 1 (Vec3 0 0 1) (Vec4 0 0 0 0)]
   \<and> with_normals real_env
        [quad_vertex 0 0 (Vec3 0 0 0) (Vec4 0 0 0 0), quad_vertex 1 0 (Vec3 0 0 0) (Vec4 0 0 0 0),
         quad_vertex 1 1 (Vec3 0 0 0) (Vec4 0 0 0 0), quad_vertex 0 1 (Vec3 0 0 0) (Vec4 0 0 0 0)]
        [0, 1, 2] ! 3 =
       quad_vertex 0 1 (normalize real_env vec3_zero) (Vec4 0 0 0 0)"
proof -
  let ?built = "(quad_mesh (Vec3 0 0 0) (\<lambda>i. Vec4 0 0 0 0))\<lparr>m_hasTexCoords := True\<rparr>"
  let ?vs = "[quad_vertex 0 0 (Vec3 0 0 0) (Vec4 0 0 0 0), quad_vertex 1 0 (Vec3 0 0 0) (Vec4 0 0 0 0),
         quad_vertex 1 1 (Vec3 0 0 0) (Vec4 0 0 0 0), quad_vertex 0 1 (Vec3 0 0 0) (Vec4 0 0 0 0)]"
  have small: "length (m_indices ?built) < 2 ^ 31"
    by (simp add: quad_mesh_def)
  have vs: "m_vertices ?built = ?vs" and xs: "m_indices ?built = [0, 1, 2, 0, 2, 3]"
    by (simp_all add: quad_mesh_def)
  have "length (m_indices ?built) = 6"
    by (simp add: xs)
  then have "3 dvd length (m_indices ?built)"
    by simp
  moreover have "indices_in_range ?built"
    by (simp add: quad_mesh_def indices_in_range_def)
  ultimately have ok: "3 dvd length (m_indices ?built)" "indices_in_range ?built" .
  from computeNormals_accumulates [OF small, of real_env] ok quad_normals
  have "?built\<lparr>m_vertices := with_normals real_env (m_vertices ?built) (m_indices ?built),
                 m_hasNormals := True\<rparr> =
        (quad_mesh (Vec3 0 0 1) (\<lambda>i. Vec4 0 0 0 0))\<lparr>m_hasTexCoords := True, m_hasNormals := True\<rparr>"
    by simp
  then have "m_vertices (?built\<lparr>m_vertices := with_normals real_env (m_vertices ?built) (m_indices ?built),
                 m_hasNormals := True\<rparr>) =
        m_vertices ((quad_mesh (Vec3 0 0 1) (\<lambda>i. Vec4 0 0 0 0))\<lparr>m_hasTexCoords := True, m_hasNormals := True\<rparr>)"
    by (rule arg_cong)
  then have full: "with_normals real_env ?vs [0, 1, 2, 0, 2, 3] =
       [quad_vertex 0 0 (Vec3 0 0 1) (Vec4 0 0 0 0), quad_vertex 1 0 (Vec3 0 0 1) (Vec4 0 0 0 0),
        quad_vertex 1 1 (Vec3 0 0 1) (Vec4 0 0 0 0), quad_vertex 0 1 (Vec3 0 0 1) (Vec4 0 0 0 0)]"
    by (simp add: vs xs) (simp add: quad_mesh_def)
  let ?one = "blank_model\<lparr>m_vertices := ?vs, m_indices := [0, 1, 2]\<rparr>"
  have "length (m_indices ?one) < 2 ^ 31" by simp
  from computeNormals_accumulates [OF this, of real_env]
  have "\<forall>i<length (m_vertices ?one). i \<notin> unat ` set (m_indices ?one) \<longrightarrow>
        with_normals real_env (m_vertices ?one) (m_indices ?one) ! i =
          (m_vertices ?one ! i)\<lparr>normal := normalize real_env vec3_zero\<rparr>"
    by blast
  then have "3 < length (m_vertices ?one) \<longrightarrow> 3 \<notin> unat ` set (m_indices ?one) \<longrightarrow>
        with_normals real_env (m_vertices ?one) (m_indices ?one) ! 3 =
          (m_vertices ?one ! 3)\<lparr>normal := normalize real_env vec3_zero\<rparr>"
    by blast
  then have lone: "with_normals real_env ?vs [0, 1, 2] ! 3 =
       quad_vertex 0 1 (normalize real_env vec3_zero) (Vec4 0 0 0 0)"
    by (simp add: quad_vertex_def)
  from small quad_normals full lone show ?thesis by blast
qed


text \<open>The mesh with \<open>2 ^ 31 + 1\<close> indices, evaluated.\<close>

lemma range_stop_many: "range_stop 2147483649 = - 2147483647"
  by (simp add: range_stop_def)

lemma length_concat_replicate: "length (concat (replicate k xs)) = k * length xs"
  by (induction k) simp_all

lemma set_concat_replicate: "set (concat (replicate k xs)) \<subseteq> set xs"
  by (induction k) auto

lemma triangles_concat_replicate:
  "triangles (concat (replicate k [a, b, c])) = replicate k (a, b, c)"
  by (induction k) simp_all

lemma concat_replicate_single: "concat (replicate k [x]) = replicate k x"
  by (induction k) simp_all

lemma foldl_add_replicate:
  "foldl vec3_add (Vec3 x y z) (replicate k (Vec3 0 0 (1::real))) = Vec3 x y (z + real k)"
  by (induction k arbitrary: z) (simp_all add: vec3_add_def)

lemma length_many_indices: "length many_indices = 2147483649"
  by (simp add: many_indices_def length_concat_replicate)

lemma many_indices_in_range: "indices_in_range many_mesh"
proof -
  have "i \<in> {0, 1, 2}" if "i \<in> set many_indices" for i
    using that set_concat_replicate [of 715827883 "[0, 1, 2 :: GLuint]"]
    by (auto simp: many_indices_def)
  then have "unat i < 3" if "i \<in> set many_indices" for i
    using that by fastforce
  then show ?thesis
    by (simp add: indices_in_range_def many_mesh_def numeral_3_eq_3)
qed

lemma many_mesh_normals:
  "computeNormals real_env many_mesh =
     Inr (many_mesh\<lparr>m_vertices := map (\<lambda>v. v\<lparr>normal := normalize real_env vec3_zero\<rparr>)
                                     (m_vertices many_mesh),
                    m_hasNormals := True\<rparr>)"
proof -
  have "m_indices many_mesh = many_indices"
    by (simp add: many_mesh_def)
  then show ?thesis
    by (simp add: computeNormals_def length_many_indices range_stop_many for_range3.simps
          comp_def)
qed

lemma many_mesh_accumulated:
  "accumulated_normal (m_vertices many_mesh) (m_indices many_mesh) 0 = Vec3 0 0 715827883"
proof -
  have f: "face_normal (m_vertices many_mesh) (0, 1, 2) = Vec3 0 0 1"
    by (simp add: face_normal_def many_mesh_def quad_vertex_def cross_def vec3_sub_def)
  have o: "occurrences 0 (0, 1, 2) = 1"
    by (simp add: occurrences_def)
  have "contributions (face_normal (m_vertices many_mesh)) many_indices 0 =
        concat (replicate 715827883 [Vec3 0 0 1])"
    by (simp add: contributions_def many_indices_def triangles_concat_replicate f o)
  also have "\<dots> = replicate 715827883 (Vec3 0 0 1)"
    by (rule concat_replicate_single)
  finally show ?thesis
    using foldl_add_replicate [of 0 0 0 715827883]
    by (simp add: accumulated_normal_def many_mesh_def vec3_zero_def)
qed

text \<open>
  Claim C2 as stated, without the bound, fails on a mesh with \<open>2 ^ 31 + 1\<close> indices: the
  index count, converted to the \<open>int\<close> of the loop counter, is negative, the loop over the
  faces does not run, and every normal is the normalization of the zero vector, where
  the accumulated normal of the first vertex has the normalization \<open>(0, 0, 1)\<close>.
\<close>

theorem computeNormals_accumulates_counterexample:
  "length (m_indices many_mesh) = 2147483649
   \<and> 3 dvd length (m_indices many_mesh)
   \<and> indices_in_range many_mesh
   \<and> computeNormals real_env many_mesh =
       Inr (many_mesh\<lparr>m_vertices := map (\<lambda>v. v\<lparr>normal := normalize real_env vec3_zero\<rparr>)
                                       (m_vertices many_mesh),
                      m_hasNormals := True\<rparr>)
   \<and> normalize real_env (accumulated_normal (m_vertices many_mesh) (m_indices many_mesh) 0) =
       Vec3 0 0 1
   \<and> normalize real_env vec3_zero \<noteq> Vec3 0 0 1"
proof -
  have len: "length (m_indices many_mesh) = 2147483649"
    by (simp add: many_mesh_def length_many_indices)
  then have "3 dvd length (m_indices many_mesh)"
    by simp
  moreover have "normalize real_env (Vec3 0 0 715827883) = Vec3 0 0 1"
    by (simp add: normalize_def real_env_def vec3_scale_def dot_def)
  moreover have "normalize real_env vec3_zero \<noteq> Vec3 0 0 1"
    by (simp add: normalize_def real_env_def vec3_scale_def dot_def vec3_zero_def)
  ultimately show ?thesis
    using len many_indices_in_range many_mesh_normals many_mesh_accumulated by simp
qed

section \<open>Tangent computation\<close>

lemma computeTangents_face_eq:
  "computeTangents_face xs (int off) (vs, bs) =
     (if off + 2 < length xs \<and> in_range (length vs) (xs ! off, xs ! (off + 1), xs ! (off + 2))
      then Inr (tangents_step (vs, bs) (xs ! off, xs ! (off + 1), xs ! (off + 2)))
      else Inl OutOfRange)"
  by (simp add: computeTangents_face_def at_int_nat at_int_nat_add at_nat_def in_range_def
        tangents_step_def face_tangent_of_def Let_def case_prod_beta)

lemma length_tangents_step [simp]:
  "length (fst (tangents_step s t)) = length (fst s)"
  "length (snd (tangents_step s t)) = length (snd s)"
  by (cases s; cases t; simp add: tangents_step_def)+

lemma length_foldl_tangents_step [simp]:
  "length (fst (foldl tangents_step s ts)) = length (fst s)"
  "length (snd (foldl tangents_step s ts)) = length (snd s)"
  by (induction ts arbitrary: s) simp_all

lemma tangents_step_nth:
  assumes "in_range (length vs) t" and "i < length vs" and "length bs = length vs"
  shows "fst (tangents_step (vs, bs) t) ! i =
           (vs ! i)\<lparr>tangent := foldl vec4_add (tangent (vs ! i))
                                 (replicate (occurrences i t) (fst (face_tangent_of vs t)))\<rparr>"
    and "snd (tangents_step (vs, bs) t) ! i =
           foldl vec3_add (bs ! i) (replicate (occurrences i t) (snd (face_tangent_of vs t)))"
proof -
  obtain a b c where t: "t = (a, b, c)" by (cases t)
  show "fst (tangents_step (vs, bs) t) ! i =
           (vs ! i)\<lparr>tangent := foldl vec4_add (tangent (vs ! i))
                                 (replicate (occurrences i t) (fst (face_tangent_of vs t)))\<rparr>"
    using assms
    by (cases "unat a = i"; cases "unat b = i"; cases "unat c = i")
       (simp_all add: t tangents_step_def add_tangent_def occurrences_def in_range_def)
  show "snd (tangents_step (vs, bs) t) ! i =
           foldl vec3_add (bs ! i) (replicate (occurrences i t) (snd (face_tangent_of vs t)))"
    using assms
    by (cases "unat a = i"; cases "unat b = i"; cases "unat c = i")
       (simp_all add: t tangents_step_def add_bitangent_def occurrences_def in_range_def)
qed

lemma face_tangent_of_cong:
  assumes "in_range (length vs) t" and "length ws = length vs"
    and "\<And>k. k < length vs \<Longrightarrow> position (ws ! k) = position (vs ! k)"
    and "\<And>k. k < length vs \<Longrightarrow> texCoord (ws ! k) = texCoord (vs ! k)"
  shows "face_tangent_of ws t = face_tangent_of vs t"
  using assms by (cases t) (simp add: face_tangent_of_def face_tangent_def in_range_def)

lemma foldl_tangents_step_nth:
  assumes "list_all (in_range (length vs)) ts" and "i < length vs" and "length bs = length vs"
  shows "fst (foldl tangents_step (vs, bs) ts) ! i =
           (vs ! i)\<lparr>tangent := foldl vec4_add (tangent (vs ! i))
              (concat (map (\<lambda>t. replicate (occurrences i t) (fst (face_tangent_of vs t))) ts))\<rparr> \<and>
         snd (foldl tangents_step (vs, bs) ts) ! i =
           foldl vec3_add (bs ! i)
              (concat (map (\<lambda>t. replicate (occurrences i t) (snd (face_tangent_of vs t))) ts))"
  using assms
proof (induction ts arbitrary: vs bs)
  case Nil
  show ?case by simp
next
  case (Cons t ts)
  obtain ws cs where step: "tangents_step (vs, bs) t = (ws, cs)"
    by (cases "tangents_step (vs, bs) t")
  from Cons.prems have t: "in_range (length vs) t" and ts: "list_all (in_range (length vs)) ts"
    by simp_all
  have len: "length ws = length vs" "length cs = length vs"
    using length_tangents_step [of "(vs, bs)" t] Cons.prems(3) by (simp_all add: step)
  have w: "ws ! k = (vs ! k)\<lparr>tangent := foldl vec4_add (tangent (vs ! k))
                                 (replicate (occurrences k t) (fst (face_tangent_of vs t)))\<rparr>"
    and c: "cs ! k = foldl vec3_add (bs ! k) (replicate (occurrences k t) (snd (face_tangent_of vs t)))"
    if "k < length vs" for k
    using tangents_step_nth [OF t that Cons.prems(3)] by (simp_all add: step)
  have same: "face_tangent_of ws t' = face_tangent_of vs t'" if "t' \<in> set ts" for t'
  proof -
    from that ts have "in_range (length vs) t'" by (simp add: list_all_iff)
    then show ?thesis
      by (rule face_tangent_of_cong) (simp_all add: len w)
  qed
  have m1: "map (\<lambda>t'. replicate (occurrences i t') (fst (face_tangent_of ws t'))) ts =
            map (\<lambda>t'. replicate (occurrences i t') (fst (face_tangent_of vs t'))) ts"
    and m2: "map (\<lambda>t'. replicate (occurrences i t') (snd (face_tangent_of ws t'))) ts =
             map (\<lambda>t'. replicate (occurrences i t') (snd (face_tangent_of vs t'))) ts"
    by (rule map_cong [OF refl], simp add: same)+
  have "fst (foldl tangents_step (ws, cs) ts) ! i =
           (ws ! i)\<lparr>tangent := foldl vec4_add (tangent (ws ! i))
              (concat (map (\<lambda>t. replicate (occurrences i t) (fst (face_tangent_of ws t))) ts))\<rparr> \<and>
         snd (foldl tangents_step (ws, cs) ts) ! i =
           foldl vec3_add (cs ! i)
              (concat (map (\<lambda>t. replicate (occurrences i t) (snd (face_tangent_of ws t))) ts))"
    using ts Cons.prems(2) len by (intro Cons.IH) simp_all
  then show ?case
    using Cons.prems(2) by (simp add: step m1 m2 w c)
qed

lemma tangents_loop_eq:
  assumes "length xs < 2 ^ 31" and "length bs = length vs"
  shows "for_range3 0 (range_stop (length xs)) (computeTangents_face xs) (vs, bs) =
     (if 3 dvd length xs \<and> (\<forall>j \<in> set xs. unat j < length vs)
      then Inr (foldl tangents_step (vs, bs) (triangles xs)) else Inl OutOfRange)"
proof -
  have "for_range3 (int 0) (int (length xs)) (computeTangents_face xs) (vs, bs) =
       (if 3 dvd (length xs - 0) \<and> list_all (in_range (length vs)) (triangles (drop 0 xs))
        then Inr (foldl tangents_step (vs, bs) (triangles (drop 0 xs))) else Inl OutOfRange)"
  proof (rule for_range3_triangles [where good = "\<lambda>s. length (fst s) = length vs"])
    fix off and s :: "'a vertex list \<times> 'a vec3 list"
    assume "length (fst s) = length vs"
    then show "computeTangents_face xs (int off) s =
       (if off + 2 < length xs \<and> in_range (length vs) (xs ! off, xs ! (off + 1), xs ! (off + 2))
        then Inr (tangents_step s (xs ! off, xs ! (off + 1), xs ! (off + 2))) else Inl OutOfRange)"
      using computeTangents_face_eq [of xs off "fst s" "snd s"] by simp
  qed simp_all
  then show ?thesis
    using set_triangles [of xs "length vs"] by (auto simp: range_stop_small [OF assms(1)])
qed

text \<open>The face loop changes nothing of a vertex but its tangent, at any number of indices.\<close>

lemma computeTangents_faces_frame:
  assumes "computeTangents_faces m = Inr (vs, bs)"
  shows "length vs = length (m_vertices m) \<and> length bs = length (m_vertices m) \<and>
         (\<forall>i<length (m_vertices m). (vs ! i)\<lparr>tangent := tangent (m_vertices m ! i)\<rparr> = m_vertices m ! i)"
proof -
  let ?N = "length (m_vertices m)"
  let ?P = "\<lambda>s. length (fst s) = ?N \<and> length (snd s) = ?N \<and>
                (\<forall>i<?N. (fst s ! i)\<lparr>tangent := tangent (m_vertices m ! i)\<rparr> = m_vertices m ! i)"
  from assms have loop:
    "for_range3 0 (range_stop (length (m_indices m))) (computeTangents_face (m_indices m))
       (m_vertices m, replicate ?N (Vec3 0 0 0)) = Inr (vs, bs)"
    by (simp add: computeTangents_faces_def)
  have "?P (vs, bs)"
  proof (rule for_range3_invariant [OF loop, where P = ?P])
    show "?P (m_vertices m, replicate ?N (Vec3 0 0 0))" by simp
  next
    fix i :: int and s s' :: "'a vertex list \<times> 'a vec3 list"
    assume P: "?P s" and body: "computeTangents_face (m_indices m) i s = Inr s'"
    obtain ws cs where s: "s = (ws, cs)" by (cases s)
    from body have "0 \<le> i"
      by (auto simp: s computeTangents_face_def at_int_def and_then_Inr_iff split: if_splits)
    then obtain off where i: "i = int off" by (metis nat_0_le)
    let ?t = "(m_indices m ! off, m_indices m ! (off + 1), m_indices m ! (off + 2))"
    from body have t: "in_range (length ws) ?t" and s': "s' = tangents_step (ws, cs) ?t"
      by (simp_all add: s i computeTangents_face_eq split: if_splits)
    from P have len: "length ws = ?N" "length cs = ?N" by (simp_all add: s)
    have "(fst s' ! k)\<lparr>tangent := tangent (m_vertices m ! k)\<rparr> = m_vertices m ! k" if "k < ?N" for k
    proof -
      have "fst s' ! k = (ws ! k)\<lparr>tangent := foldl vec4_add (tangent (ws ! k))
                                 (replicate (occurrences k ?t) (fst (face_tangent_of ws ?t)))\<rparr>"
        unfolding s' using t that len by (intro tangents_step_nth(1)) simp_all
      with P that show ?thesis by (simp add: s)
    qed
    with len show "?P s'" by (simp add: s')
  qed
  then show ?thesis by simp
qed

lemma tangent_update_eq:
  assumes "v\<lparr>tangent := t\<rparr> = w"
  shows "normal v = normal w" and "v\<lparr>tangent := x\<rparr> = w\<lparr>tangent := x\<rparr>"
proof -
  have "normal (v\<lparr>tangent := t\<rparr>) = normal w" by (simp only: assms)
  then show "normal v = normal w" by simp
  have "(v\<lparr>tangent := t\<rparr>)\<lparr>tangent := x\<rparr> = w\<lparr>tangent := x\<rparr>" by (simp only: assms)
  then show "v\<lparr>tangent := x\<rparr> = w\<lparr>tangent := x\<rparr>" by simp
qed

lemma orthogonalize_eq:
  "orthogonalize F v b =
     v\<lparr>tangent := vec4_of (normalize F (gram_schmidt (normal v) (vec4_xyz (tangent v))))
                    (handedness (normal v) (vec4_xyz (tangent v)) b)\<rparr>"
  by (simp add: orthogonalize_def gram_schmidt_def handedness_def Let_def)

lemma handedness_cases: "handedness n t b = 1 \<or> handedness n t b = - 1"
  by (simp add: handedness_def)

lemma oriented_accumulation:
  assumes "\<forall>j \<in> set xs. unat j < length vs" and "3 dvd length xs"
  shows "map (\<lambda>(v, b). orthogonalize F v b)
           (zip (fst (foldl tangents_step (vs, replicate (length vs) (Vec3 0 0 0)) (triangles xs)))
                (snd (foldl tangents_step (vs, replicate (length vs) (Vec3 0 0 0)) (triangles xs)))) =
         with_tangents F vs xs"
proof (rule nth_equalityI)
  let ?r = "foldl tangents_step (vs, replicate (length vs) (Vec3 0 0 0)) (triangles xs)"
  show "length (map (\<lambda>(v, b). orthogonalize F v b) (zip (fst ?r) (snd ?r))) =
        length (with_tangents F vs xs)"
    by (simp add: with_tangents_def)
  fix i
  assume "i < length (map (\<lambda>(v, b). orthogonalize F v b) (zip (fst ?r) (snd ?r)))"
  then have i: "i < length vs" by simp
  from assms have valid: "list_all (in_range (length vs)) (triangles xs)"
    by (simp add: set_triangles)
  from foldl_tangents_step_nth [OF valid i, of "replicate (length vs) (Vec3 0 0 0)"] i
  have v: "fst ?r ! i = (vs ! i)\<lparr>tangent := accumulated_tangent vs xs i\<rparr>"
    and b: "snd ?r ! i = accumulated_bitangent vs xs i"
    by (simp_all add: accumulated_tangent_def accumulated_bitangent_def contributions_def)
  show "map (\<lambda>(v, b). orthogonalize F v b) (zip (fst ?r) (snd ?r)) ! i = with_tangents F vs xs ! i"
    using i by (simp add: v b orthogonalize_eq with_tangents_def)
qed

text \<open>
  Claim C4. After \<open>computeTangents\<close>, every vertex has, for the tangent and the bitangent
  that the face loop accumulated on it: in \<open>xyz\<close> the accumulated tangent orthogonalized
  against the normal of the vertex and normalized, and in \<open>w\<close> the sign of
  \<open>dot(cross(normal, tangent), bitangent)\<close>, which is \<open>+1\<close> or \<open>-1\<close> (\<open>+1\<close> when the product is
  not negative). The tangent in the cross product is the accumulated one. Nothing else of
  the vertex changes. For fewer than \<open>2 ^ 31\<close> indices the accumulated values are the sums
  over the consecutive triplets, and \<open>computeTangents\<close> is the function of the second
  part.
\<close>

theorem tangent_handedness:
  "(computeTangents F m = Inr m' \<longrightarrow>
      (\<exists>vs bs. computeTangents_faces m = Inr (vs, bs) \<and>
         length vs = length (m_vertices m) \<and> length bs = length (m_vertices m) \<and>
         length (m_vertices m') = length (m_vertices m) \<and>
         (\<forall>i<length (m_vertices m).
            m_vertices m' ! i =
              (m_vertices m ! i)\<lparr>tangent :=
                 vec4_of
                   (normalize F (gram_schmidt (normal (m_vertices m ! i)) (vec4_xyz (tangent (vs ! i)))))
                   (handedness (normal (m_vertices m ! i)) (vec4_xyz (tangent (vs ! i))) (bs ! i))\<rparr> \<and>
            (vec4_w (tangent (m_vertices m' ! i)) = 1 \<or>
             vec4_w (tangent (m_vertices m' ! i)) = - 1)))) \<and>
   (length (m_indices m) < 2 ^ 31 \<longrightarrow>
      computeTangents F m =
        (if 3 dvd length (m_indices m) \<and> indices_in_range m
         then Inr (m\<lparr>m_vertices := with_tangents F (m_vertices m) (m_indices m)\<rparr>)
         else Inl OutOfRange))"
proof (intro conjI impI)
  assume run: "computeTangents F m = Inr m'"
  then obtain vs bs where faces: "computeTangents_faces m = Inr (vs, bs)"
    and m': "m' = m\<lparr>m_vertices := map (\<lambda>(v, b). orthogonalize F v b) (zip vs bs)\<rparr>"
    by (auto simp: computeTangents_def and_then_Inr_iff)
  from computeTangents_faces_frame [OF faces] have len: "length vs = length (m_vertices m)"
    "length bs = length (m_vertices m)"
    and frame: "\<And>i. i < length (m_vertices m) \<Longrightarrow>
                  (vs ! i)\<lparr>tangent := tangent (m_vertices m ! i)\<rparr> = m_vertices m ! i"
    by simp_all
  have each: "m_vertices m' ! i =
              (m_vertices m ! i)\<lparr>tangent :=
                 vec4_of
                   (normalize F (gram_schmidt (normal (m_vertices m ! i)) (vec4_xyz (tangent (vs ! i)))))
                   (handedness (normal (m_vertices m ! i)) (vec4_xyz (tangent (vs ! i))) (bs ! i))\<rparr> \<and>
            (vec4_w (tangent (m_vertices m' ! i)) = 1 \<or>
             vec4_w (tangent (m_vertices m' ! i)) = - 1)"
    if "i < length (m_vertices m)" for i
  proof -
    from frame [OF that] have n: "normal (vs ! i) = normal (m_vertices m ! i)"
      by (rule tangent_update_eq(1))
    have "m_vertices m' ! i = orthogonalize F (vs ! i) (bs ! i)"
      using that len by (simp add: m')
    also have "\<dots> = (vs ! i)\<lparr>tangent :=
                 vec4_of
                   (normalize F (gram_schmidt (normal (m_vertices m ! i)) (vec4_xyz (tangent (vs ! i)))))
                   (handedness (normal (m_vertices m ! i)) (vec4_xyz (tangent (vs ! i))) (bs ! i))\<rparr>"
      by (simp add: orthogonalize_eq n)
    also have "\<dots> = (m_vertices m ! i)\<lparr>tangent :=
                 vec4_of
                   (normalize F (gram_schmidt (normal (m_vertices m ! i)) (vec4_xyz (tangent (vs ! i)))))
                   (handedness (normal (m_vertices m ! i)) (vec4_xyz (tangent (vs ! i))) (bs ! i))\<rparr>"
      using frame [OF that] by (rule tangent_update_eq(2))
    finally show ?thesis
      using handedness_cases [of "normal (m_vertices m ! i)" "vec4_xyz (tangent (vs ! i))" "bs ! i"]
      by (simp add: vec4_of_def)
  qed
  have "length (m_vertices m') = length (m_vertices m)"
    by (simp add: m' len)
  with faces len each show "\<exists>vs bs. computeTangents_faces m = Inr (vs, bs) \<and>
         length vs = length (m_vertices m) \<and> length bs = length (m_vertices m) \<and>
         length (m_vertices m') = length (m_vertices m) \<and>
         (\<forall>i<length (m_vertices m).
            m_vertices m' ! i =
              (m_vertices m ! i)\<lparr>tangent :=
                 vec4_of
                   (normalize F (gram_schmidt (normal (m_vertices m ! i)) (vec4_xyz (tangent (vs ! i)))))
                   (handedness (normal (m_vertices m ! i)) (vec4_xyz (tangent (vs ! i))) (bs ! i))\<rparr> \<and>
            (vec4_w (tangent (m_vertices m' ! i)) = 1 \<or>
             vec4_w (tangent (m_vertices m' ! i)) = - 1))"
    by blast
next
  assume small: "length (m_indices m) < 2 ^ 31"
  show "computeTangents F m =
        (if 3 dvd length (m_indices m) \<and> indices_in_range m
         then Inr (m\<lparr>m_vertices := with_tangents F (m_vertices m) (m_indices m)\<rparr>)
         else Inl OutOfRange)"
  proof (cases "3 dvd length (m_indices m) \<and> indices_in_range m")
    case False
    then show ?thesis
      by (auto simp: computeTangents_def computeTangents_faces_def tangents_loop_eq [OF small]
            indices_in_range_def)
  next
    case True
    then have ok: "\<forall>j \<in> set (m_indices m). unat j < length (m_vertices m)"
      "3 dvd length (m_indices m)"
      by (simp_all add: indices_in_range_def)
    from True oriented_accumulation [OF ok, of F] show ?thesis
      by (simp add: computeTangents_def computeTangents_faces_def tangents_loop_eq [OF small]
            indices_in_range_def case_prod_beta)
  qed
qed

lemma mirrored_tangents:
  "computeTangents real_env (mirrored_triangle (Vec4 0 0 0 0)) =
     Inr (mirrored_triangle (Vec4 1 0 0 (- 1)))"
  by (simp add: tangents_defs mirrored_triangle_def blank_model_def real_env_def glm_defs)

lemma quad_faces:
  "computeTangents_faces
     ((quad_mesh (Vec3 0 0 1) (\<lambda>i. Vec4 0 0 0 0))\<lparr>m_hasTexCoords := True, m_hasNormals := True\<rparr>) =
   Inr ([quad_vertex 0 0 (Vec3 0 0 1) (Vec4 2 0 0 0), quad_vertex 1 0 (Vec3 0 0 1) (Vec4 1 0 0 0),
         quad_vertex 1 1 (Vec3 0 0 1) (Vec4 2 0 0 0), quad_vertex 0 1 (Vec3 0 0 1) (Vec4 1 0 0 0)],
        [Vec3 0 2 0, Vec3 0 1 0, Vec3 0 2 0, Vec3 0 1 0])"
  by (simp add: tangents_defs quad_mesh_def quad_vertex_def blank_model_def glm_defs)


theorem tangent_handedness_witness:
  "computeTangents real_env
     ((quad_mesh (Vec3 0 0 1) (\<lambda>i. Vec4 0 0 0 0))\<lparr>m_hasTexCoords := True, m_hasNormals := True\<rparr>) =
     Inr ((quad_mesh (Vec3 0 0 1) (\<lambda>i. Vec4 1 0 0 1))\<lparr>m_hasTexCoords := True, m_hasNormals := True\<rparr>)
   \<and> computeTangents_faces
       ((quad_mesh (Vec3 0 0 1) (\<lambda>i. Vec4 0 0 0 0))\<lparr>m_hasTexCoords := True, m_hasNormals := True\<rparr>) =
       Inr ([quad_vertex 0 0 (Vec3 0 0 1) (Vec4 2 0 0 0), quad_vertex 1 0 (Vec3 0 0 1) (Vec4 1 0 0 0),
             quad_vertex 1 1 (Vec3 0 0 1) (Vec4 2 0 0 0), quad_vertex 0 1 (Vec3 0 0 1) (Vec4 1 0 0 0)],
            [Vec3 0 2 0, Vec3 0 1 0, Vec3 0 2 0, Vec3 0 1 0])
   \<and> vec4_of (normalize real_env (gram_schmidt (Vec3 0 0 1) (Vec3 2 0 0)))
        (handedness (Vec3 0 0 1) (Vec3 2 0 0) (Vec3 0 2 0)) = Vec4 1 0 0 1
   \<and> length (m_indices (mirrored_triangle (Vec4 0 0 0 0))) < 2 ^ 31
   \<and> computeTangents real_env (mirrored_triangle (Vec4 0 0 0 0)) =
       Inr (mirrored_triangle (Vec4 1 0 0 (- 1)))
   \<and> with_tangents real_env (m_vertices (mirrored_triangle (Vec4 0 0 0 0))) [0, 1, 2] =
       m_vertices (mirrored_triangle (Vec4 1 0 0 (- 1)))"
proof -
  let ?N = "(quad_mesh (Vec3 0 0 1) (\<lambda>i. Vec4 0 0 0 0))\<lparr>m_hasTexCoords := True, m_hasNormals := True\<rparr>"
  let ?T = "(quad_mesh (Vec3 0 0 1) (\<lambda>i. Vec4 1 0 0 1))\<lparr>m_hasTexCoords := True, m_hasNormals := True\<rparr>"
  let ?M = "mirrored_triangle (Vec4 0 0 0 0)"
  from tangent_handedness [of real_env ?N ?T] quad_tangents obtain vs bs where
    faces: "computeTangents_faces ?N = Inr (vs, bs)"
    and each: "\<forall>i<length (m_vertices ?N).
            m_vertices ?T ! i =
              (m_vertices ?N ! i)\<lparr>tangent :=
                 vec4_of
                   (normalize real_env (gram_schmidt (normal (m_vertices ?N ! i)) (vec4_xyz (tangent (vs ! i)))))
                   (handedness (normal (m_vertices ?N ! i)) (vec4_xyz (tangent (vs ! i))) (bs ! i))\<rparr> \<and>
            (vec4_w (tangent (m_vertices ?T ! i)) = 1 \<or>
             vec4_w (tangent (m_vertices ?T ! i)) = - 1)"
    by blast
  from faces quad_faces have "vs = [quad_vertex 0 0 (Vec3 0 0 1) (Vec4 2 0 0 0),
         quad_vertex 1 0 (Vec3 0 0 1) (Vec4 1 0 0 0), quad_vertex 1 1 (Vec3 0 0 1) (Vec4 2 0 0 0),
         quad_vertex 0 1 (Vec3 0 0 1) (Vec4 1 0 0 0)]"
    and "bs = [Vec3 0 2 0, Vec3 0 1 0, Vec3 0 2 0, Vec3 0 1 0]"
    by simp_all
  then have vs: "vs ! 0 = quad_vertex 0 0 (Vec3 0 0 1) (Vec4 2 0 0 0)"
    and bs: "bs ! 0 = Vec3 0 2 0"
    by simp_all
  have "0 < length (m_vertices ?N)" by (simp add: quad_mesh_def)
  with each have "m_vertices ?T ! 0 =
              (m_vertices ?N ! 0)\<lparr>tangent :=
                 vec4_of
                   (normalize real_env (gram_schmidt (normal (m_vertices ?N ! 0)) (vec4_xyz (tangent (vs ! 0)))))
                   (handedness (normal (m_vertices ?N ! 0)) (vec4_xyz (tangent (vs ! 0))) (bs ! 0))\<rparr>"
    by blast
  then have first: "vec4_of (normalize real_env (gram_schmidt (Vec3 0 0 1) (Vec3 2 0 0)))
        (handedness (Vec3 0 0 1) (Vec3 2 0 0) (Vec3 0 2 0)) = Vec4 1 0 0 1"
    by (simp add: vs bs quad_mesh_def quad_vertex_def vec4_xyz_def)
  have small: "length (m_indices ?M) < 2 ^ 31"
    by (simp add: mirrored_triangle_def)
  have xs: "m_indices ?M = [0, 1, 2]"
    by (simp add: mirrored_triangle_def)
  have "length (m_indices ?M) = 3"
    by (simp add: xs)
  then have "3 dvd length (m_indices ?M)"
    by simp
  moreover have "indices_in_range ?M"
    by (simp add: mirrored_triangle_def indices_in_range_def)
  ultimately have ok: "3 dvd length (m_indices ?M)" "indices_in_range ?M" .
  from tangent_handedness [of real_env ?M] small ok mirrored_tangents
  have "?M\<lparr>m_vertices := with_tangents real_env (m_vertices ?M) (m_indices ?M)\<rparr> =
        mirrored_triangle (Vec4 1 0 0 (- 1))"
    by simp
  then have "m_vertices (?M\<lparr>m_vertices := with_tangents real_env (m_vertices ?M) (m_indices ?M)\<rparr>) =
        m_vertices (mirrored_triangle (Vec4 1 0 0 (- 1)))"
    by (rule arg_cong)
  then have mirrored: "with_tangents real_env (m_vertices ?M) [0, 1, 2] =
       m_vertices (mirrored_triangle (Vec4 1 0 0 (- 1)))"
    by (simp add: xs)
  from quad_tangents quad_faces first small mirrored_tangents mirrored show ?thesis
    by blast
qed

section \<open>A texture file that does not exist\<close>













section \<open>Standardization\<close>

lemma sqrt_25: "sqrt 25 = 5"
proof -
  have "sqrt 25 = sqrt (5\<^sup>2)" by simp
  also have "\<dots> = 5" by (simp only: real_sqrt_abs)
  finally show ?thesis .
qed

text \<open>
  Claim C3 at the mesh of two vertices \<open>(0, 0, 0)\<close> and \<open>(3, 4, 0)\<close>, in exact arithmetic:
  \<open>standardize\<close> divides by the length of the diagonal of the box, \<open>5\<close>, so the box of the
  result is centered at the origin and has the diagonal \<open>2\<close>, and its longest axis has the
  half-length \<open>4/5\<close>, not \<open>1\<close>.
\<close>

theorem standardize_segment:
  "map position (m_vertices (standardize real_env segment_mesh)) =
     [Vec3 (- (3 / 5)) (- (4 / 5)) 0, Vec3 (3 / 5) (4 / 5) 0]
   \<and> box_center (map position (m_vertices (standardize real_env segment_mesh))) = Vec3 0 0 0
   \<and> longest_half_length (map position (m_vertices (standardize real_env segment_mesh))) = 4 / 5
   \<and> length_vec3 real_env
        (vec3_sub (box_high (map position (m_vertices (standardize real_env segment_mesh))))
                  (box_low (map position (m_vertices (standardize real_env segment_mesh))))) = 2"
proof -
  have b: "bounds real_env (m_vertices segment_mesh) = (Vec3 3 4 0, Vec3 0 0 0)"
    by (simp add: bounds_def bounds_step_def std_max_def std_min_def segment_mesh_def
          quad_vertex_def real_env_def)
  have l: "length_vec3 real_env (vec3_sub (Vec3 3 4 0) (Vec3 0 0 0)) = 5"
    by (simp add: length_vec3_def real_env_def vec3_sub_def dot_def sqrt_25)
  have r: "map position (m_vertices (standardize real_env segment_mesh)) =
     [Vec3 (- (3 / 5)) (- (4 / 5)) 0, Vec3 (3 / 5) (4 / 5) 0]"
    by (simp add: standardize_def b l)
       (simp add: segment_mesh_def quad_vertex_def real_env_def vec3_add_def vec3_sub_def
          vec3_div_def vec3_scale_def)
  have "length_vec3 real_env (Vec3 (6 / 5) (8 / 5) 0) = 2"
  proof -
    have "(6 / 5) * (6 / 5) + (8 / 5) * (8 / 5) + 0 * 0 = (2::real)\<^sup>2"
      by (simp add: power2_eq_square)
    then show ?thesis
      by (simp only: length_vec3_def dot_def vec3.sel real_env_def float_env.simps real_sqrt_abs)
  qed
  then show ?thesis
    by (simp add: r box_center_def box_low_def box_high_def longest_half_length_def
          vec3_add_def vec3_sub_def vec3_div_def)
qed

end
